theory Spec2Isabelle
  imports Main "HOL-Library.Sublist" "HOL-Library.AList" "HOL-Library.Word"
begin

section \<open>Strings, paths and the file system\<close>

text \<open>
  A JavaScript string is modelled as a \<^typ>\<open>string\<close>: a list of characters, each
  one code unit with a code below 256. The line terminators of ECMAScript that such a
  text can contain are line feed and carriage return.
\<close>

definition startsWith :: "string \<Rightarrow> string \<Rightarrow> bool" where
  "startsWith s p = prefix p s"

definition endsWith :: "string \<Rightarrow> string \<Rightarrow> bool" where
  "endsWith s p = suffix p s"

definition toLowerChar :: "char \<Rightarrow> char" where
  "toLowerChar c =
     (let n = (of_char c :: nat)
      in if (65 \<le> n \<and> n \<le> 90) \<or> (192 \<le> n \<and> n \<le> 222 \<and> n \<noteq> 215)
         then char_of (n + 32) else c)"

definition toLowerCase :: "string \<Rightarrow> string" where
  "toLowerCase s = map toLowerChar s"

text \<open>
  The functions of Node's \<open>path\<close> module (POSIX flavour) that the program calls.
  \<open>path_basename\<close> drops trailing slashes and keeps what follows the last slash
  left; \<open>path_extname\<close> is the part of that last component from its last dot on,
  and empty when the component has no dot, starts with its only dot, or is \<open>..\<close>;
  \<open>path_dirname\<close> is what precedes the last slash that is followed by a component.
\<close>

definition path_basename :: "string \<Rightarrow> string" where
  "path_basename p =
     rev (takeWhile (\<lambda>c. c \<noteq> CHR ''/'') (dropWhile (\<lambda>c. c = CHR ''/'') (rev p)))"

definition path_extname :: "string \<Rightarrow> string" where
  "path_extname p =
     (let c = path_basename p
      in if CHR ''.'' \<notin> set c then []
         else let ext = CHR ''.'' # rev (takeWhile (\<lambda>x. x \<noteq> CHR ''.'') (rev c))
              in if length ext = length c \<or> c = ''..'' then [] else ext)"

definition path_dirname :: "string \<Rightarrow> string" where
  "path_dirname p =
     (case p of
        [] \<Rightarrow> ''.''
      | h # t \<Rightarrow>
          (let hasRoot = (h = CHR ''/'');
               t' = rev (dropWhile (\<lambda>c. c = CHR ''/'') (rev t))
           in if CHR ''/'' \<notin> set t' then (if hasRoot then ''/'' else ''.'')
              else let d = rev (tl (dropWhile (\<lambda>c. c \<noteq> CHR ''/'') (rev t')))
                   in if hasRoot \<and> d = [] then ''//'' else h # d))"

text \<open>
  \<open>path.join\<close> on the arguments the program gives it: a normalised directory path
  (the root directory \<open>/\<close> is the only one that ends in a slash) and a relative
  path below it.
\<close>

definition path_join :: "string \<Rightarrow> string \<Rightarrow> string" where
  "path_join a b = (if a = ''/'' then a @ b else a @ ''/'' @ b)"

text \<open>
  The file system maps a path to what is there: a file with its content, or a directory
  with the names its listing returns, in the listing's order. The program lists
  directories only before its first write, so the names kept in a directory entry are
  the listing at the start of a run: writing and deleting a file change the file's own
  entry. Symbolic links are not modelled. A file is written only into a directory that
  exists.
\<close>

datatype node = File string | Dir "string list"

type_synonym filesystem = "string \<rightharpoonup> node"

datatype error =
    NotFound string
  | UnsupportedFormat string
  | UploadFailed
  | IOError string
  | RegExpError string

definition existsSync :: "filesystem \<Rightarrow> string \<Rightarrow> bool" where
  "existsSync fs p = (fs p \<noteq> None)"

definition readdirSync :: "filesystem \<Rightarrow> string \<Rightarrow> error + string list" where
  "readdirSync fs p = (case fs p of Some (Dir names) \<Rightarrow> Inr names | _ \<Rightarrow> Inl (IOError p))"

definition statSync_isDirectory :: "filesystem \<Rightarrow> string \<Rightarrow> error + bool" where
  "statSync_isDirectory fs p =
     (case fs p of None \<Rightarrow> Inl (IOError p) | Some (Dir _) \<Rightarrow> Inr True | Some (File _) \<Rightarrow> Inr False)"

definition readFileSync :: "filesystem \<Rightarrow> string \<Rightarrow> error + string" where
  "readFileSync fs p = (case fs p of Some (File c) \<Rightarrow> Inr c | _ \<Rightarrow> Inl (IOError p))"

definition writeFileSync :: "filesystem \<Rightarrow> string \<Rightarrow> string \<Rightarrow> error + filesystem" where
  "writeFileSync fs p c =
     (case fs (path_dirname p) of
        Some (Dir _) \<Rightarrow>
          (case fs p of Some (Dir _) \<Rightarrow> Inl (IOError p) | _ \<Rightarrow> Inr (fs(p \<mapsto> File c)))
      | _ \<Rightarrow> Inl (IOError p))"

definition unlinkSync :: "filesystem \<Rightarrow> string \<Rightarrow> error + filesystem" where
  "unlinkSync fs p =
     (case fs p of Some (File _) \<Rightarrow> Inr (fs(p := None)) | _ \<Rightarrow> Inl (IOError p))"

section \<open>The input validator (src/cli/src/ffmpeg.ts)\<close>

text \<open>
  \<open>validateInputFile\<close> throws when the path does not exist, then when the lower-cased
  extension is not \<open>.mp4\<close>. The two \<open>Error\<close>s it throws are the error kinds
  \<open>NotFound\<close> (carrying the path) and \<open>UnsupportedFormat\<close> (carrying the extension
  found). The file system is passed through, so that the result shows what the call left
  of it.
\<close>

definition validateInputFile :: "filesystem \<Rightarrow> string \<Rightarrow> (error + unit) \<times> filesystem" where
  "validateInputFile fs filePath =
     (if \<not> existsSync fs filePath then (Inl (NotFound filePath), fs)
      else let ext = toLowerCase (path_extname filePath)
           in if ext \<noteq> ''.mp4'' then (Inl (UnsupportedFormat ext), fs)
              else (Inr (), fs))"

definition videos_fs :: filesystem where
  "videos_fs = [''/videos/clip.MP4'' \<mapsto> File ''mp4 data'', ''/videos/notes.txt'' \<mapsto> File ''text'']"

section \<open>JavaScript objects used as dictionaries\<close>

text \<open>
  The dictionaries of the program (\<open>BlobMapping\<close> and the table of temporary paths) are
  plain objects created by the literal \<open>{}\<close>, with string values. Such an object is
  modelled as the list of its own properties in the order \<open>Object.entries\<close> and
  \<open>Object.keys\<close> enumerate them: first the keys that are array indices, in ascending
  numeric order, then the other keys in the order they were created.

  An array index is the decimal numeral, without a leading zero, of a number up to
  \<open>2^32 - 2\<close>.
\<close>

definition is_digit :: "char \<Rightarrow> bool" where
  "is_digit c = (c \<in> set ''0123456789'')"

definition digit_value :: "char \<Rightarrow> int" where
  "digit_value c = of_char c - 48"

definition index_value :: "string \<Rightarrow> int" where
  "index_value k = foldl (\<lambda>n c. 10 * n + digit_value c) 0 k"

definition is_array_index :: "string \<Rightarrow> bool" where
  "is_array_index k =
     (k \<noteq> [] \<and> list_all is_digit k \<and> (k = ''0'' \<or> hd k \<noteq> CHR ''0'') \<and>
      index_value k < 4294967295)"

type_synonym js_object = "(string \<times> string) list"

text \<open>A new array-index key takes its place among the array indices at the front.\<close>

fun insert_index :: "string \<Rightarrow> string \<Rightarrow> js_object \<Rightarrow> js_object" where
  "insert_index k v [] = [(k, v)]"
| "insert_index k v ((k', v') # obj) =
     (if is_array_index k' \<and> index_value k' < index_value k
      then (k', v') # insert_index k v obj
      else (k, v) # (k', v') # obj)"

text \<open>
  The assignment \<^verbatim>\<open>obj[k] = v\<close> of a string \<open>v\<close>. Under the key \<open>__proto__\<close> the
  assignment reaches the setter every plain object inherits, which ignores a value that
  is not an object: no property is created. Any other key becomes an own property; a
  key that is there keeps its place (\<^const>\<open>AList.update\<close> replaces the value in place
  and puts a new key at the end).
\<close>

definition obj_set :: "js_object \<Rightarrow> string \<Rightarrow> string \<Rightarrow> js_object" where
  "obj_set obj k v =
     (if k = ''__proto__'' then obj
      else if is_array_index k \<and> map_of obj k = None then insert_index k v obj
      else AList.update k v obj)"

text \<open>
  The read \<^verbatim>\<open>obj[k]\<close>: an own property, or else a member inherited from
  \<open>Object.prototype\<close> (a function, or under \<open>__proto__\<close> the prototype itself), or else
  \<open>undefined\<close>. An inherited member is kept as the string it converts to when it is
  used as a key or printed, as Node.js writes it.
\<close>

datatype member = Undefined | Own string | Inherited string

definition object_prototype_names :: "string list" where
  "object_prototype_names =
     [''constructor'', ''__defineGetter__'', ''__defineSetter__'', ''hasOwnProperty'',
      ''__lookupGetter__'', ''__lookupSetter__'', ''isPrototypeOf'', ''propertyIsEnumerable'',
      ''toString'', ''valueOf'', ''__proto__'', ''toLocaleString'']"

definition inherited_text :: "string \<Rightarrow> string" where
  "inherited_text k =
     (if k = ''__proto__'' then ''[object Object]''
      else if k = ''constructor'' then ''function Object() { [native code] }''
      else ''function '' @ k @ ''() { [native code] }'')"

definition obj_get :: "js_object \<Rightarrow> string \<Rightarrow> member" where
  "obj_get obj k =
     (case map_of obj k of
        Some v \<Rightarrow> Own v
      | None \<Rightarrow> if k \<in> set object_prototype_names then Inherited (inherited_text k)
                else Undefined)"

text \<open>
  A member used as a condition and then as a key: \<open>undefined\<close> and the empty string are
  falsy; a string is its own key, and an inherited member is converted to its text.
\<close>

definition truthy_key :: "member \<Rightarrow> string option" where
  "truthy_key m =
     (case m of
        Undefined \<Rightarrow> None
      | Own s \<Rightarrow> if s = [] then None else Some s
      | Inherited t \<Rightarrow> Some t)"

section \<open>Replacing with a regular expression\<close>

text \<open>
  The program rewrites manifests with
  \<^verbatim>\<open>text.replace(new RegExp(source, "gm"), replacement)\<close>, where \<open>source\<close> is
  \<open>^\<close>, a file or directory name as it stands, and \<open>$\<close>. A name is read as a
  regular expression. The model covers the patterns that are sequences of: a character
  that is not a syntax character of the pattern grammar, which matches itself; a
  backslash followed by a syntax character or a slash, which matches that character;
  a dot, which matches any character but a line terminator; and the assertions \<open>^\<close>
  and \<open>$\<close>, which with the flag \<open>m\<close> hold at the start and the end of a line.
  For any other source (quantifiers, groups, classes, alternatives, other escapes)
  \<open>parse_pattern\<close> returns \<open>None\<close>, and so does \<open>js_replace\<close>: the model says
  nothing about such a pattern.
\<close>

definition is_line_terminator :: "char \<Rightarrow> bool" where
  "is_line_terminator c = (c = CHR 0x0A \<or> c = CHR 0x0D)"

datatype atom = Lit char | AnyChar | Bol | Eol

definition syntax_chars :: "char list" where
  "syntax_chars = CHR 0x5C # ''^$.*+?()[]{}|''"

fun parse_pattern :: "string \<Rightarrow> atom list option" where
  "parse_pattern [] = Some []"
| "parse_pattern (c # cs) =
     (if c = CHR 0x5C then
        (case cs of
           [] \<Rightarrow> None
         | e # es \<Rightarrow>
             if e \<in> set syntax_chars \<or> e = CHR ''/''
             then map_option (Cons (Lit e)) (parse_pattern es) else None)
      else if c = CHR ''.'' then map_option (Cons AnyChar) (parse_pattern cs)
      else if c = CHR ''^'' then map_option (Cons Bol) (parse_pattern cs)
      else if c = CHR ''$'' then map_option (Cons Eol) (parse_pattern cs)
      else if c \<in> set syntax_chars then None
      else map_option (Cons (Lit c)) (parse_pattern cs))"

text \<open>
  \<open>rx_match p prev s\<close> matches the atoms of \<open>p\<close> at the head of \<open>s\<close>, where
  \<open>prev\<close> is the character before it (none at the start of the text). Every atom
  takes one character or none, so there is one way to match; the result is the matched
  text and what follows it.
\<close>

fun rx_match :: "atom list \<Rightarrow> char option \<Rightarrow> string \<Rightarrow> (string \<times> string) option" where
  "rx_match [] prev s = Some ([], s)"
| "rx_match (Lit c # p) prev s =
     (case s of
        [] \<Rightarrow> None
      | x # xs \<Rightarrow>
          if x = c then map_option (\<lambda>(m, r). (x # m, r)) (rx_match p (Some x) xs) else None)"
| "rx_match (AnyChar # p) prev s =
     (case s of
        [] \<Rightarrow> None
      | x # xs \<Rightarrow>
          if \<not> is_line_terminator x
          then map_option (\<lambda>(m, r). (x # m, r)) (rx_match p (Some x) xs) else None)"
| "rx_match (Bol # p) prev s =
     (if (case prev of None \<Rightarrow> True | Some c \<Rightarrow> is_line_terminator c)
      then rx_match p prev s else None)"
| "rx_match (Eol # p) prev s =
     (if (case s of [] \<Rightarrow> True | x # _ \<Rightarrow> is_line_terminator x)
      then rx_match p prev s else None)"

text \<open>
  The replacement text of \<open>replace\<close> is a template: \<open>$$\<close> stands for a dollar sign,
  \<open>$&\<close> for the matched text, \<open>$`\<close> for the text before the match and \<open>$'\<close> for
  the text after it. The patterns of the model have no groups, so a dollar sign before
  anything else stands for itself.
\<close>

fun get_substitution :: "string \<Rightarrow> string \<Rightarrow> string \<Rightarrow> string \<Rightarrow> string" where
  "get_substitution m pre post [] = []"
| "get_substitution m pre post [c] = [c]"
| "get_substitution m pre post (c # d # r) =
     (if c = CHR ''$'' then
        (if d = CHR ''$'' then CHR ''$'' # get_substitution m pre post r
         else if d = CHR ''&'' then m @ get_substitution m pre post r
         else if d = CHR 0x60 then pre @ get_substitution m pre post r
         else if d = CHR 0x27 then post @ get_substitution m pre post r
         else c # get_substitution m pre post (d # r))
      else c # get_substitution m pre post (d # r))"

definition last_char :: "string \<Rightarrow> char option" where
  "last_char pre = (if pre = [] then None else Some (last pre))"

text \<open>
  The flag \<open>g\<close>: every match is replaced, searching from the left and resuming after
  each match (one character further after an empty match). \<open>pre\<close> is the text already
  passed, \<open>s\<close> the text still to search.
\<close>

function rx_replace_from :: "atom list \<Rightarrow> string \<Rightarrow> string \<Rightarrow> string \<Rightarrow> string" where
  "rx_replace_from p repl pre s =
     (case rx_match p (last_char pre) s of
        Some (m, rest) \<Rightarrow>
          get_substitution m pre rest repl @
            (if m = [] then
               (case s of [] \<Rightarrow> [] | x # xs \<Rightarrow> x # rx_replace_from p repl (pre @ [x]) xs)
             else rx_replace_from p repl (pre @ m) rest)
      | None \<Rightarrow>
          (case s of [] \<Rightarrow> [] | x # xs \<Rightarrow> x # rx_replace_from p repl (pre @ [x]) xs))"
  by pat_completeness auto
termination
proof (relation "measure (\<lambda>(p, repl, pre, s). length s)")
  have split: "rx_match p prev s = Some (m, rest) \<Longrightarrow> s = m @ rest"
    for p prev s m rest
    by (induction p prev s arbitrary: m rest rule: rx_match.induct)
       (auto split: list.splits if_splits)
  fix p :: "atom list" and repl pre s :: string and x2 :: "string \<times> string" and m rest
  assume "rx_match p (last_char pre) s = Some x2" "(m, rest) = x2" "m \<noteq> []"
  then have "s = m @ rest" "m \<noteq> []"
    using split [of p "last_char pre" s m rest] by simp_all
  then show "((p, repl, pre @ m, rest), (p, repl, pre, s)) \<in> measure (\<lambda>(p, repl, pre, s). length s)"
    by simp
qed auto

declare rx_replace_from.simps [simp del]

definition js_replace :: "string \<Rightarrow> string \<Rightarrow> string \<Rightarrow> string option" where
  "js_replace s source repl =
     map_option (\<lambda>p. rx_replace_from p repl [] s) (parse_pattern source)"

section \<open>The manifest rewriter (src/cli/index.ts)\<close>

definition AGGREGATOR :: string where
  "AGGREGATOR = ''https://aggregator.walrus-testnet.walrus.space''"

definition BLOB_ENDPOINT :: string where
  "BLOB_ENDPOINT = AGGREGATOR @ ''/v1/blobs''"

text \<open>
  A \<open>BlobMapping\<close> is a JavaScript object used as a dictionary from file paths to blob
  identifiers; \<open>Object.entries\<close> yields the list itself.
\<close>

type_synonym blob_mapping = js_object

text \<open>
  The regular-expression engine is part of the platform. The rewriting functions take
  it as a parameter: \<open>replace text source replacement\<close> stands for
  \<^verbatim>\<open>text.replace(new RegExp(source, "gm"), replacement)\<close>, and is \<open>None\<close> when
  the call throws. What does not depend on the engine is proved for every such function;
  what does is evaluated with \<open>js_replace\<close>, which is the engine on the patterns it
  models, on inputs all of whose patterns it models.
\<close>

type_synonym regexp_replace = "string \<Rightarrow> string \<Rightarrow> string \<Rightarrow> string option"

text \<open>\<open>updatePlaylistContent\<close>: the loop over the entries of the mapping.\<close>

fun updatePlaylistContent ::
  "regexp_replace \<Rightarrow> string \<Rightarrow> string \<Rightarrow> blob_mapping \<Rightarrow> string option" where
  "updatePlaylistContent replace playlistContent streamDir [] = Some playlistContent"
| "updatePlaylistContent replace playlistContent streamDir ((filePath, blobId) # entries) =
     (if startsWith filePath (streamDir @ ''/'') \<and> endsWith filePath ''.ts'' then
        (let fileName = path_basename filePath;
             blobUrl = BLOB_ENDPOINT @ ''/'' @ blobId
         in case replace playlistContent (''^'' @ fileName @ ''$'') blobUrl of
              None \<Rightarrow> None
            | Some updatedContent \<Rightarrow>
                updatePlaylistContent replace updatedContent streamDir entries)
      else updatePlaylistContent replace playlistContent streamDir entries)"

text \<open>
  The loop of \<open>processAndUploadMasterPlaylist\<close> that rewrites the master manifest
  (lines 214 to 220 of the source).
\<close>

fun updateMasterContent :: "regexp_replace \<Rightarrow> string \<Rightarrow> blob_mapping \<Rightarrow> string option" where
  "updateMasterContent replace masterContent [] = Some masterContent"
| "updateMasterContent replace masterContent ((filePath, blobId) # entries) =
     (if endsWith filePath ''playlist.m3u8'' then
        (let streamDir = path_dirname filePath;
             blobUrl = BLOB_ENDPOINT @ ''/'' @ blobId
         in case replace masterContent
                   (''^'' @ streamDir @ ''/playlist'' @ [CHR 0x5C] @ ''.m3u8$'') blobUrl of
              None \<Rightarrow> None
            | Some updatedContent \<Rightarrow> updateMasterContent replace updatedContent entries)
      else updateMasterContent replace masterContent entries)"

section \<open>Lines of a text and names without special characters\<close>

text \<open>
  The lines of a text: what stands between the start of the text, its line terminators
  and its end. A text that ends in a terminator has an empty last line.
\<close>

fun text_lines :: "string \<Rightarrow> string list" where
  "text_lines [] = [[]]"
| "text_lines (c # cs) =
     (if is_line_terminator c then [] # text_lines cs
      else (case text_lines cs of [] \<Rightarrow> [[c]] | l # ls \<Rightarrow> (c # l) # ls))"

text \<open>
  A plain name is not empty and has no syntax character of the pattern grammar, no
  slash and no line terminator; the names \<open>stream_<n>\<close> of the directory layout are
  plain. A key of the mapping is a sub-manifest key when it is a plain directory name
  followed by \<open>/playlist.m3u8\<close>. A blob identifier is plain when it has no dollar
  sign and no line terminator, as the identifiers of the storage network are (they are
  written in the URL-safe base-64 alphabet).
\<close>

definition plain_char :: "char \<Rightarrow> bool" where
  "plain_char c = (c \<notin> set syntax_chars \<and> c \<noteq> CHR ''/'' \<and> \<not> is_line_terminator c)"

definition plain_name :: "string \<Rightarrow> bool" where
  "plain_name d = (d \<noteq> [] \<and> list_all plain_char d)"

definition sub_manifest_key :: "string \<Rightarrow> bool" where
  "sub_manifest_key k =
     (k = take (length k - 14) k @ ''/playlist.m3u8'' \<and> plain_name (take (length k - 14) k))"

definition plain_blob_id :: "string \<Rightarrow> bool" where
  "plain_blob_id b = list_all (\<lambda>c. c \<noteq> CHR ''$'' \<and> \<not> is_line_terminator c) b"

text \<open>
  A mapping as a run builds it over the transcoder's output: every key that ends in
  \<open>playlist.m3u8\<close> is a sub-manifest key and carries a plain identifier.
\<close>

definition sub_manifests_plain :: "blob_mapping \<Rightarrow> bool" where
  "sub_manifests_plain m =
     (\<forall>e \<in> set m. endsWith (fst e) ''playlist.m3u8'' \<longrightarrow>
        sub_manifest_key (fst e) \<and> plain_blob_id (snd e))"

abbreviation no_terminator :: "string \<Rightarrow> bool" where
  "no_terminator s \<equiv> \<forall>c \<in> set s. \<not> is_line_terminator c"

text \<open>
  What the master-manifest pass makes of one line, entry by entry: the line is replaced
  by an entry's retrieval URL when the entry's key ends in \<open>playlist.m3u8\<close> and the
  line is that key.
\<close>

fun master_line :: "blob_mapping \<Rightarrow> string \<Rightarrow> string" where
  "master_line [] l = l"
| "master_line ((k, b) # entries) l =
     master_line entries
       (if endsWith k ''playlist.m3u8'' \<and> l = k then BLOB_ENDPOINT @ ''/'' @ b else l)"

section \<open>The batch uploader and the asset enumerator (src/cli/index.ts)\<close>

text \<open>
  One record of the storage client's parsed output, as the interface
  \<open>WalrusCLIResult\<close> declares it: the path, and under \<open>blobStoreResult\<close> the two
  optional success variants.
\<close>

record AlreadyCertified =
  ac_blobId :: string

record BlobObject =
  bo_blobId :: string

record NewlyCreated =
  blobObject :: BlobObject

record BlobStoreResult =
  alreadyCertified :: "AlreadyCertified option"
  newlyCreated :: "NewlyCreated option"

record WalrusCLIResult =
  blobStoreResult :: BlobStoreResult
  path :: string

text \<open>
  The expression
  \<^verbatim>\<open>r.alreadyCertified?.blobId || r.newlyCreated?.blobObject.blobId\<close>
  followed by the test \<^verbatim>\<open>if (blobId)\<close>: an identifier that is absent or the empty
  string is passed over.
\<close>

definition resolve_blobId :: "WalrusCLIResult \<Rightarrow> string option" where
  "resolve_blobId fileResult =
     (let fromCertified =
            (case alreadyCertified (blobStoreResult fileResult) of
               None \<Rightarrow> None | Some a \<Rightarrow> Some (ac_blobId a));
          fromCreated =
            (case newlyCreated (blobStoreResult fileResult) of
               None \<Rightarrow> None | Some n \<Rightarrow> Some (bo_blobId (blobObject n)));
          blobId =
            (if fromCertified \<noteq> None \<and> fromCertified \<noteq> Some [] then fromCertified
             else fromCreated)
      in if blobId \<noteq> None \<and> blobId \<noteq> Some [] then blobId else None)"

text \<open>
  The loop over the results: \<^verbatim>\<open>blobMappings[fileResult.path] = blobId\<close> for every
  entry that resolved an identifier.
\<close>

fun collect_blobMappings :: "blob_mapping \<Rightarrow> WalrusCLIResult list \<Rightarrow> blob_mapping" where
  "collect_blobMappings blobMappings [] = blobMappings"
| "collect_blobMappings blobMappings (fileResult # results) =
     (case resolve_blobId fileResult of
        Some blobId \<Rightarrow>
          collect_blobMappings (obj_set blobMappings (path fileResult) blobId) results
      | None \<Rightarrow> collect_blobMappings blobMappings results)"

text \<open>
  The storage client is outside the program. \<open>walrus cwd filePaths fs\<close> stands for
  running \<^verbatim>\<open>walrus store ... --epochs 2 --json\<close> in the directory \<open>cwd\<close> and parsing
  its output: \<open>None\<close> when the command exits with an error or prints what is not the
  expected JSON, and the parsed records otherwise.
\<close>

type_synonym walrus_cli = "string \<Rightarrow> string list \<Rightarrow> filesystem \<Rightarrow> WalrusCLIResult list option"

definition uploadToWalrus ::
  "walrus_cli \<Rightarrow> filesystem \<Rightarrow> string list \<Rightarrow> string \<Rightarrow> error + blob_mapping" where
  "uploadToWalrus walrus fs filePaths assetsDir =
     (case walrus assetsDir filePaths fs of
        None \<Rightarrow> Inl UploadFailed
      | Some results \<Rightarrow> Inr (collect_blobMappings [] results))"

text \<open>
  \<open>getStreamDirectories\<close>: the names of the listing that are directories and start with
  \<open>stream_\<close>. \<open>statSync\<close> throws on a name that is not there.
\<close>

fun filter_directories :: "filesystem \<Rightarrow> string \<Rightarrow> string list \<Rightarrow> error + string list" where
  "filter_directories fs assetsPath [] = Inr []"
| "filter_directories fs assetsPath (item # items) =
     (case statSync_isDirectory fs (path_join assetsPath item) of
        Inl e \<Rightarrow> Inl e
      | Inr isDir \<Rightarrow>
          (case filter_directories fs assetsPath items of
             Inl e \<Rightarrow> Inl e
           | Inr dirs \<Rightarrow> Inr (if isDir then item # dirs else dirs)))"

definition getStreamDirectories :: "filesystem \<Rightarrow> string \<Rightarrow> error + string list" where
  "getStreamDirectories fs assetsPath =
     (case readdirSync fs assetsPath of
        Inl e \<Rightarrow> Inl e
      | Inr items \<Rightarrow>
          (case filter_directories fs assetsPath items of
             Inl e \<Rightarrow> Inl e
           | Inr dirs \<Rightarrow> Inr (filter (\<lambda>dir. startsWith dir ''stream_'') dirs)))"

fun collectSegmentFiles :: "filesystem \<Rightarrow> string list \<Rightarrow> string \<Rightarrow> error + string list" where
  "collectSegmentFiles fs [] assetsPath = Inr []"
| "collectSegmentFiles fs (streamDir # streamDirs) assetsPath =
     (case readdirSync fs (path_join assetsPath streamDir) of
        Inl e \<Rightarrow> Inl e
      | Inr files \<Rightarrow>
          (case collectSegmentFiles fs streamDirs assetsPath of
             Inl e \<Rightarrow> Inl e
           | Inr later \<Rightarrow>
               Inr (map (path_join streamDir) (filter (\<lambda>file. endsWith file ''.ts'') files)
                    @ later)))"

text \<open>
  Modelled from the spec: the naming convention of a rendition directory, the fixed
  prefix \<open>stream_\<close> followed by an ordinal (the \<open>stream_<n>\<close> of the directory layout).
\<close>

definition rendition_name :: "string \<Rightarrow> bool" where
  "rendition_name dir =
     (startsWith dir ''stream_'' \<and> drop 7 dir \<noteq> [] \<and> list_all is_digit (drop 7 dir))"

text \<open>Records for the examples: one of each shape the storage client can return.\<close>

definition certified_result :: "string \<Rightarrow> string \<Rightarrow> WalrusCLIResult" where
  "certified_result p b =
     \<lparr>blobStoreResult = \<lparr>alreadyCertified = Some \<lparr>ac_blobId = b\<rparr>, newlyCreated = None\<rparr>,
      path = p\<rparr>"

definition created_result :: "string \<Rightarrow> string \<Rightarrow> WalrusCLIResult" where
  "created_result p b =
     \<lparr>blobStoreResult =
        \<lparr>alreadyCertified = None, newlyCreated = Some \<lparr>blobObject = \<lparr>bo_blobId = b\<rparr>\<rparr>\<rparr>,
      path = p\<rparr>"

definition failed_result :: "string \<Rightarrow> WalrusCLIResult" where
  "failed_result p =
     \<lparr>blobStoreResult = \<lparr>alreadyCertified = None, newlyCreated = None\<rparr>, path = p\<rparr>"

definition three_results :: "WalrusCLIResult list" where
  "three_results =
     [certified_result ''a.ts'' ''A1'', created_result ''b.ts'' ''N2'', failed_result ''c.ts'']"


text \<open>What a path holds, read off the file system.\<close>

definition is_directory :: "filesystem \<Rightarrow> string \<Rightarrow> bool" where
  "is_directory fs p = (case fs p of Some (Dir names) \<Rightarrow> True | _ \<Rightarrow> False)"

definition listing :: "filesystem \<Rightarrow> string \<Rightarrow> string list" where
  "listing fs p = (case fs p of Some (Dir names) \<Rightarrow> names | _ \<Rightarrow> [])"

text \<open>An output directory that also holds a directory \<open>stream_backup\<close>.\<close>

definition backup_fs :: filesystem where
  "backup_fs =
     [''/out'' \<mapsto> Dir [''stream_0'', ''notes.txt'', ''stream_backup'', ''logs''],
      ''/out/stream_0'' \<mapsto> Dir [''data000.ts'', ''playlist.m3u8'', ''data001.ts''],
      ''/out/notes.txt'' \<mapsto> File ''notes'',
      ''/out/stream_backup'' \<mapsto> Dir [''old.ts''],
      ''/out/logs'' \<mapsto> Dir [''run.ts'']]"

section \<open>The upload pipeline (src/cli/index.ts)\<close>

text \<open>
  \<open>processAndUploadPlaylists\<close>, first loop: for every stream directory that has a
  \<open>playlist.m3u8\<close>, rewrite it, write the result to \<open>temp_playlist.m3u8\<close> beside it,
  and note the temporary path and the original path it stands for.
\<close>

fun writeTempPlaylists ::
  "regexp_replace \<Rightarrow> filesystem \<Rightarrow> string \<Rightarrow> blob_mapping \<Rightarrow> string list \<Rightarrow> string list \<Rightarrow> (string \<times> string) list \<Rightarrow>
     error + (filesystem \<times> string list \<times> (string \<times> string) list)" where
  "writeTempPlaylists replace fs assetsPath blobMappings [] allPlaylistFiles playlistMappings =
     Inr (fs, allPlaylistFiles, playlistMappings)"
| "writeTempPlaylists replace fs assetsPath blobMappings (streamDir # streamDirs)
       allPlaylistFiles playlistMappings =
     (if existsSync fs (path_join (path_join assetsPath streamDir) ''playlist.m3u8'') then
        (case readFileSync fs (path_join (path_join assetsPath streamDir) ''playlist.m3u8'') of
           Inl e \<Rightarrow> Inl e
         | Inr playlistContent \<Rightarrow>
             (case updatePlaylistContent replace playlistContent streamDir blobMappings of
                None \<Rightarrow> Inl (RegExpError streamDir)
              | Some updatedContent \<Rightarrow>
                  (case writeFileSync fs
                          (path_join (path_join assetsPath streamDir) ''temp_playlist.m3u8'')
                          updatedContent of
                     Inl e \<Rightarrow> Inl e
                   | Inr fs' \<Rightarrow>
                       writeTempPlaylists replace fs' assetsPath blobMappings streamDirs
                         (allPlaylistFiles @ [path_join streamDir ''temp_playlist.m3u8''])
                         (obj_set playlistMappings (path_join streamDir ''temp_playlist.m3u8'')
                            (path_join streamDir ''playlist.m3u8'')))))
      else writeTempPlaylists replace fs assetsPath blobMappings streamDirs
             allPlaylistFiles playlistMappings)"

text \<open>
  Second loop: every uploaded temporary path under which the table \<open>playlistMappings\<close>
  holds something truthy enters its identifier under what the table holds, and the
  temporary file is deleted.
\<close>

fun remapPlaylists ::
  "filesystem \<Rightarrow> string \<Rightarrow> js_object \<Rightarrow> blob_mapping \<Rightarrow> blob_mapping \<Rightarrow>
     error + (filesystem \<times> blob_mapping)" where
  "remapPlaylists fs assetsPath playlistMappings blobMappings [] = Inr (fs, blobMappings)"
| "remapPlaylists fs assetsPath playlistMappings blobMappings ((tempPath, blobId) # entries) =
     (case truthy_key (obj_get playlistMappings tempPath) of
        None \<Rightarrow> remapPlaylists fs assetsPath playlistMappings blobMappings entries
      | Some originalPath \<Rightarrow>
          if existsSync fs (path_join assetsPath tempPath) then
            (case unlinkSync fs (path_join assetsPath tempPath) of
               Inl e \<Rightarrow> Inl e
             | Inr fs' \<Rightarrow>
                 remapPlaylists fs' assetsPath playlistMappings
                   (obj_set blobMappings originalPath blobId) entries)
          else remapPlaylists fs assetsPath playlistMappings
                 (obj_set blobMappings originalPath blobId) entries)"

definition processAndUploadPlaylists ::
  "regexp_replace \<Rightarrow> walrus_cli \<Rightarrow> filesystem \<Rightarrow> string list \<Rightarrow> string \<Rightarrow> blob_mapping \<Rightarrow>
     error + (filesystem \<times> blob_mapping)" where
  "processAndUploadPlaylists replace walrus fs streamDirs assetsPath blobMappings =
     (case writeTempPlaylists replace fs assetsPath blobMappings streamDirs [] [] of
        Inl e \<Rightarrow> Inl e
      | Inr (fs', allPlaylistFiles, playlistMappings) \<Rightarrow>
          if length allPlaylistFiles > 0 then
            (case uploadToWalrus walrus fs' allPlaylistFiles assetsPath of
               Inl e \<Rightarrow> Inl e
             | Inr playlistBlobMappings \<Rightarrow>
                 remapPlaylists fs' assetsPath playlistMappings blobMappings
                   playlistBlobMappings)
          else Inr (fs', blobMappings))"

text \<open>
  \<open>processAndUploadMasterPlaylist\<close> returns what the uploader's mapping holds under the
  temporary path (\<open>None\<close> for JavaScript's \<open>undefined\<close>). The path ends in
  \<open>/temp_master.m3u8\<close>, which is no inherited name, so that the read finds an own
  property or nothing.
\<close>

definition processAndUploadMasterPlaylist ::
  "regexp_replace \<Rightarrow> walrus_cli \<Rightarrow> filesystem \<Rightarrow> string \<Rightarrow> blob_mapping \<Rightarrow> error + (filesystem \<times> string option)" where
  "processAndUploadMasterPlaylist replace walrus fs assetsPath blobMappings =
     (case readFileSync fs (path_join assetsPath ''master.m3u8'') of
        Inl e \<Rightarrow> Inl e
      | Inr masterContent \<Rightarrow>
          (case updateMasterContent replace masterContent blobMappings of
             None \<Rightarrow> Inl (RegExpError ''master.m3u8'')
           | Some updatedContent \<Rightarrow>
               (case writeFileSync fs (path_join assetsPath ''temp_master.m3u8'') updatedContent of
                  Inl e \<Rightarrow> Inl e
                | Inr fs' \<Rightarrow>
                    (case uploadToWalrus walrus fs' [path_join assetsPath ''temp_master.m3u8'']
                            assetsPath of
                       Inl e \<Rightarrow> Inl e
                     | Inr masterPlaylistBlobMapping \<Rightarrow>
                         (case unlinkSync fs' (path_join assetsPath ''temp_master.m3u8'') of
                            Inl e \<Rightarrow> Inl e
                          | Inr fs'' \<Rightarrow>
                              Inr (fs'',
                                   map_of masterPlaylistBlobMapping
                                     (path_join assetsPath ''temp_master.m3u8'')))))))"

text \<open>
  \<open>Object.assign(target, source)\<close> on two dictionaries: every own property of the source,
  in the order of its enumeration, is assigned to the target.
\<close>

definition object_assign :: "blob_mapping \<Rightarrow> blob_mapping \<Rightarrow> blob_mapping" where
  "object_assign target source = fold (\<lambda>(k, v) obj. obj_set obj k v) source target"

text \<open>
  \<open>uploadHLSAssetsToWalrus\<close>. Its argument is the assets directory as
  \<open>path.resolve\<close> returns it, an absolute path. The result is the file system the run
  leaves, \<open>masterBlobId\<close> and \<open>blobMappings\<close>.
\<close>

definition uploadHLSAssetsToWalrus ::
  "regexp_replace \<Rightarrow> walrus_cli \<Rightarrow> filesystem \<Rightarrow> string \<Rightarrow> error + (filesystem \<times> string option \<times> blob_mapping)" where
  "uploadHLSAssetsToWalrus replace walrus fs assetsPath =
     (case getStreamDirectories fs assetsPath of
        Inl e \<Rightarrow> Inl e
      | Inr streamDirs \<Rightarrow>
          (case collectSegmentFiles fs streamDirs assetsPath of
             Inl e \<Rightarrow> Inl e
           | Inr allSegmentFiles \<Rightarrow>
               (case uploadToWalrus walrus fs allSegmentFiles assetsPath of
                  Inl e \<Rightarrow> Inl e
                | Inr segmentBlobMappings \<Rightarrow>
                    (case processAndUploadPlaylists replace walrus fs streamDirs assetsPath
                            (object_assign [] segmentBlobMappings) of
                       Inl e \<Rightarrow> Inl e
                     | Inr (fs', blobMappings) \<Rightarrow>
                         (case processAndUploadMasterPlaylist replace walrus fs' assetsPath blobMappings of
                            Inl e \<Rightarrow> Inl e
                          | Inr (fs'', masterBlobId) \<Rightarrow>
                              Inr (fs'', masterBlobId, blobMappings))))))"

text \<open>
  A storage client for the examples: it stores every file it is given and reports each
  under the path it was given, as a new blob named after the path.
\<close>

definition path_blob_id :: "string \<Rightarrow> string" where
  "path_blob_id p =
     ''blob'' @
     map (\<lambda>c. if c \<in> set ''abcdefghijklmnopqrstuvwxyzABCDEFGHIJKLMNOPQRSTUVWXYZ0123456789-''
              then c else CHR ''_'') p"

definition storing_walrus :: walrus_cli where
  "storing_walrus cwd filePaths fs = Some (map (\<lambda>p. created_result p (path_blob_id p)) filePaths)"

text \<open>
  The condition on the storage client under which a run is a full successful run: what
  it returns reports the paths it was given, each with an identifier.
\<close>

definition stores_all :: "walrus_cli \<Rightarrow> bool" where
  "stores_all walrus =
     (\<forall>cwd filePaths fs results.
        walrus cwd filePaths fs = Some results \<longrightarrow>
          set (map path results) = set filePaths \<and>
          (\<forall>r \<in> set results. resolve_blobId r \<noteq> None))"

text \<open>An output directory with one rendition of one segment.\<close>

definition output_fs :: filesystem where
  "output_fs =
     [''/out'' \<mapsto> Dir [''master.m3u8'', ''stream_0''],
      ''/out/master.m3u8'' \<mapsto>
         File (''#EXTM3U'' @ [CHR 0x0A] @ ''stream_0/playlist.m3u8'' @ [CHR 0x0A]),
      ''/out/stream_0'' \<mapsto> Dir [''data000.ts'', ''playlist.m3u8''],
      ''/out/stream_0/data000.ts'' \<mapsto> File ''segment bytes'',
      ''/out/stream_0/playlist.m3u8'' \<mapsto>
         File (''#EXTM3U'' @ [CHR 0x0A] @ ''data000.ts'' @ [CHR 0x0A])]"

text \<open>
  The stream directories that have a sub-manifest, and the temporary files a run creates
  for them and for the master manifest.
\<close>

definition playlist_dirs :: "filesystem \<Rightarrow> string \<Rightarrow> string list \<Rightarrow> string list" where
  "playlist_dirs fs assetsPath streamDirs =
     filter (\<lambda>d. existsSync fs (path_join (path_join assetsPath d) ''playlist.m3u8'')) streamDirs"

definition temp_files :: "filesystem \<Rightarrow> string \<Rightarrow> string list \<Rightarrow> string set" where
  "temp_files fs assetsPath streamDirs =
     insert (path_join assetsPath ''temp_master.m3u8'')
       ((\<lambda>d. path_join (path_join assetsPath d) ''temp_playlist.m3u8'') `
          set (playlist_dirs fs assetsPath streamDirs))"

definition is_temporary_path :: "string \<Rightarrow> bool" where
  "is_temporary_path p = (endsWith p ''temp_playlist.m3u8'' \<or> endsWith p ''temp_master.m3u8'')"

text \<open>What a run returns, and what it leaves at given paths; nothing when it fails.\<close>

definition run_result ::
  "error + (filesystem \<times> string option \<times> blob_mapping) \<Rightarrow> (string option \<times> blob_mapping) option" where
  "run_result r = (case r of Inl e \<Rightarrow> None | Inr (fs', masterBlobId, blobMappings) \<Rightarrow>
                     Some (masterBlobId, blobMappings))"

definition run_leaves ::
  "error + (filesystem \<times> string option \<times> blob_mapping) \<Rightarrow> string list \<Rightarrow> node option list option" where
  "run_leaves r paths = (case r of Inl e \<Rightarrow> None | Inr (fs', masterBlobId, blobMappings) \<Rightarrow>
                     Some (map fs' paths))"

text \<open>
  An output directory that holds, beside the rendition \<open>stream_0\<close>, a directory
  \<open>stream_.\<close> with a sub-manifest of its own; and the mapping a run over it returns.
\<close>

definition dotted_fs :: filesystem where
  "dotted_fs =
     [''/out'' \<mapsto> Dir [''master.m3u8'', ''stream_.'', ''stream_0''],
      ''/out/master.m3u8'' \<mapsto>
         File (''#EXTM3U'' @ [CHR 0x0A] @ ''stream_0/playlist.m3u8'' @ [CHR 0x0A]),
      ''/out/stream_.'' \<mapsto> Dir [''old000.ts'', ''playlist.m3u8''],
      ''/out/stream_./old000.ts'' \<mapsto> File ''old segment bytes'',
      ''/out/stream_./playlist.m3u8'' \<mapsto>
         File (''#EXTM3U'' @ [CHR 0x0A] @ ''old000.ts'' @ [CHR 0x0A]),
      ''/out/stream_0'' \<mapsto> Dir [''data000.ts'', ''playlist.m3u8''],
      ''/out/stream_0/data000.ts'' \<mapsto> File ''segment bytes'',
      ''/out/stream_0/playlist.m3u8'' \<mapsto>
         File (''#EXTM3U'' @ [CHR 0x0A] @ ''data000.ts'' @ [CHR 0x0A])]"

definition dotted_mapping :: blob_mapping where
  "dotted_mapping =
     [(''stream_./old000.ts'', ''blobstream___old000_ts''),
      (''stream_0/data000.ts'', ''blobstream_0_data000_ts''),
      (''stream_./playlist.m3u8'', ''blobstream___temp_playlist_m3u8''),
      (''stream_0/playlist.m3u8'', ''blobstream_0_temp_playlist_m3u8'')]"

section \<open>The record publisher (src/sui-video/sources/video.move)\<close>

text \<open>
  The parts of the Sui framework that \<open>save_video\<close> calls. A transaction context
  carries the hash of the transaction, the start time of the current epoch in
  milliseconds and the number of objects the transaction has created; \<open>object::new\<close>
  derives a fresh identifier from the hash and that number, and counts it. The framework
  keeps the number in a \<open>u64\<close> that no transaction can exhaust; it is a natural
  number here. \<open>url::new_unsafe\<close> wraps a string without looking at it, and
  \<open>transfer::share_object\<close> puts an object into the store as a shared object.
\<close>

record TxContext =
  tx_hash :: string
  epoch_timestamp_ms :: "64 word"
  ids_created :: nat

datatype UID = UID string nat

datatype Url = Url string

record Video =
  id :: UID
  title :: string
  description :: string
  master_manifest_url :: Url
  created_at :: "64 word"

datatype ownership = Owned string | Shared | Immutable

type_synonym object_store = "(Video \<times> ownership) list"

definition object_new :: "TxContext \<Rightarrow> UID \<times> TxContext" where
  "object_new ctx = (UID (tx_hash ctx) (ids_created ctx), ctx\<lparr>ids_created := ids_created ctx + 1\<rparr>)"

definition url_new_unsafe :: "string \<Rightarrow> Url" where
  "url_new_unsafe s = Url s"

definition share_object :: "object_store \<Rightarrow> Video \<Rightarrow> object_store" where
  "share_object store video = store @ [(video, Shared)]"

text \<open>
  \<open>save_video\<close>: the fields of the record are evaluated in the order they are written,
  the identifier first, and the record is shared.
\<close>

definition save_video ::
  "object_store \<Rightarrow> TxContext \<Rightarrow> string \<Rightarrow> string \<Rightarrow> string \<Rightarrow> object_store \<times> TxContext" where
  "save_video store ctx title' description' master_manifest_url' =
     (let (uid, ctx') = object_new ctx;
          video = \<lparr>id = uid, title = title', description = description',
                   master_manifest_url = url_new_unsafe master_manifest_url',
                   created_at = epoch_timestamp_ms ctx'\<rparr>
      in (share_object store video, ctx'))"

text \<open>
  The module has one function, and the fields of a \<open>Video\<close> are private to the module.
  What can happen to the store through the module is therefore a sequence of calls of
  \<open>save_video\<close>.
\<close>

inductive module_calls :: "object_store \<Rightarrow> object_store \<Rightarrow> bool" where
  no_call: "module_calls store store"
| call: "module_calls store store' \<Longrightarrow>
         module_calls store (fst (save_video store' ctx t d u))"

definition demo_ctx :: TxContext where
  "demo_ctx = \<lparr>tx_hash = ''0xabc'', epoch_timestamp_ms = 1700000000000, ids_created = 0\<rparr>"

section \<open>Properties of the input validator\<close>

lemma path_extname_examples:
  "path_extname ''/videos/clip.MP4'' = ''.MP4''"
  "path_extname ''/videos/notes.txt'' = ''.txt''"
  "path_extname ''/videos/gone.mp4'' = ''.mp4''"
  "path_extname ''/videos/gone.avi'' = ''.avi''"
  "path_extname ''.mp4'' = []"
  "path_extname ''a/..'' = []"
  "path_extname ''a.mp4/'' = ''.mp4''"
  by (simp_all add: path_extname_def path_basename_def)

text \<open>Lower-casing, character by character, read through the character codes.\<close>

lemma of_char_toLowerChar:
  "(of_char (toLowerChar x) :: nat) =
     (if (65 \<le> (of_char x :: nat) \<and> (of_char x :: nat) \<le> 90) \<or>
         (192 \<le> (of_char x :: nat) \<and> (of_char x :: nat) \<le> 222 \<and> (of_char x :: nat) \<noteq> 215)
      then of_char x + 32 else of_char x)"
  by (auto simp: toLowerChar_def Let_def)

lemma char_eq_nat: "x = y \<longleftrightarrow> (of_char x :: nat) = of_char y"
  by simp

lemma toLowerChar_cases:
  "toLowerChar x = CHR ''m'' \<longleftrightarrow> x = CHR ''m'' \<or> x = CHR ''M''"
  "toLowerChar x = CHR ''p'' \<longleftrightarrow> x = CHR ''p'' \<or> x = CHR ''P''"
  "toLowerChar x = CHR ''4'' \<longleftrightarrow> x = CHR ''4''"
  "toLowerChar x = CHR ''.'' \<longleftrightarrow> x = CHR ''.''"
  unfolding char_eq_nat [of "toLowerChar x"] char_eq_nat [of x] of_char_toLowerChar
  by (simp_all split: if_splits) arith+

text \<open>
  An extension is \<open>.mp4\<close> up to the case of its letters exactly when it is one of four
  spellings.
\<close>

lemma toLowerCase_mp4:
  "toLowerCase e = ''.mp4'' \<longleftrightarrow> e \<in> {''.mp4'', ''.mP4'', ''.Mp4'', ''.MP4''}"
proof -
  have "toLowerCase e = ''.mp4'' \<longleftrightarrow>
        (\<exists>a b c d. e = [a, b, c, d] \<and> toLowerChar a = CHR ''.'' \<and> toLowerChar b = CHR ''m'' \<and>
                   toLowerChar c = CHR ''p'' \<and> toLowerChar d = CHR ''4'')"
    by (auto simp: toLowerCase_def map_eq_Cons_conv)
  then show ?thesis by (auto simp: toLowerChar_cases)
qed

text \<open>
  Claim C2. For every path given to the validator: a path that does not exist is rejected
  with \<open>NotFound\<close>; a path that exists and whose extension is not \<open>.mp4\<close> in any
  spelling of upper and lower case is rejected with \<open>UnsupportedFormat\<close>; a path that
  exists and whose extension is \<open>.mp4\<close> in some such spelling is accepted; and in
  every case the file system is left as it was.
\<close>

theorem validateInputFile_kinds:
  "(\<not> existsSync fs p1 \<longrightarrow> validateInputFile fs p1 = (Inl (NotFound p1), fs)) \<and>
   (existsSync fs p2 \<and> path_extname p2 \<notin> {''.mp4'', ''.mP4'', ''.Mp4'', ''.MP4''} \<longrightarrow>
      validateInputFile fs p2 = (Inl (UnsupportedFormat (toLowerCase (path_extname p2))), fs)) \<and>
   (existsSync fs p3 \<and> path_extname p3 \<in> {''.mp4'', ''.mP4'', ''.Mp4'', ''.MP4''} \<longrightarrow>
      validateInputFile fs p3 = (Inr (), fs)) \<and>
   snd (validateInputFile fs p) = fs"
proof -
  have "validateInputFile fs q =
          (if \<not> existsSync fs q then (Inl (NotFound q), fs)
           else if path_extname q \<in> {''.mp4'', ''.mP4'', ''.Mp4'', ''.MP4''} then (Inr (), fs)
           else (Inl (UnsupportedFormat (toLowerCase (path_extname q))), fs))" for q
    unfolding validateInputFile_def Let_def toLowerCase_mp4 by simp
  then show ?thesis by simp
qed

theorem validateInputFile_kinds_witness:
  "\<not> existsSync videos_fs ''/videos/gone.mp4'' \<and>
   validateInputFile videos_fs ''/videos/gone.mp4'' = (Inl (NotFound ''/videos/gone.mp4''), videos_fs) \<and>
   existsSync videos_fs ''/videos/notes.txt'' \<and>
   path_extname ''/videos/notes.txt'' \<notin> {''.mp4'', ''.mP4'', ''.Mp4'', ''.MP4''} \<and>
   validateInputFile videos_fs ''/videos/notes.txt'' = (Inl (UnsupportedFormat ''.txt''), videos_fs) \<and>
   existsSync videos_fs ''/videos/clip.MP4'' \<and>
   path_extname ''/videos/clip.MP4'' \<in> {''.mp4'', ''.mP4'', ''.Mp4'', ''.MP4''} \<and>
   validateInputFile videos_fs ''/videos/clip.MP4'' = (Inr (), videos_fs)"
proof -
  have e1: "\<not> existsSync videos_fs ''/videos/gone.mp4''"
    by (simp add: existsSync_def videos_fs_def)
  have e2: "existsSync videos_fs ''/videos/notes.txt''"
    by (simp add: existsSync_def videos_fs_def)
  have e3: "existsSync videos_fs ''/videos/clip.MP4''"
    by (simp add: existsSync_def videos_fs_def)
  have x2: "path_extname ''/videos/notes.txt'' \<notin> {''.mp4'', ''.mP4'', ''.Mp4'', ''.MP4''}"
    by (simp add: path_extname_examples)
  have l2: "toLowerCase (path_extname ''/videos/notes.txt'') = ''.txt''"
    by code_simp
  have x3: "path_extname ''/videos/clip.MP4'' \<in> {''.mp4'', ''.mP4'', ''.Mp4'', ''.MP4''}"
    by (simp add: path_extname_examples)
  note v = validateInputFile_kinds
         [of videos_fs "''/videos/gone.mp4''" "''/videos/notes.txt''" "''/videos/clip.MP4''"]
  from v e1 have 1: "validateInputFile videos_fs ''/videos/gone.mp4'' =
      (Inl (NotFound ''/videos/gone.mp4''), videos_fs)" by blast
  from v e2 x2 have "validateInputFile videos_fs ''/videos/notes.txt'' =
      (Inl (UnsupportedFormat (toLowerCase (path_extname ''/videos/notes.txt''))), videos_fs)"
    by blast
  then have 2: "validateInputFile videos_fs ''/videos/notes.txt'' =
      (Inl (UnsupportedFormat ''.txt''), videos_fs)"
    unfolding l2 .
  from v e3 x3 have 3: "validateInputFile videos_fs ''/videos/clip.MP4'' = (Inr (), videos_fs)"
    by blast
  from e1 1 e2 x2 2 e3 x3 3 show ?thesis by (intro conjI)
qed

text \<open>
  Claim C9. The validator checks existence before the extension: a path that does not
  exist is rejected with \<open>NotFound\<close> whatever its extension, and so never with
  \<open>UnsupportedFormat\<close>.
\<close>

theorem validateInputFile_existence_first:
  "\<not> existsSync fs p \<Longrightarrow>
     fst (validateInputFile fs p) = Inl (NotFound p) \<and>
     fst (validateInputFile fs p) \<noteq> Inl (UnsupportedFormat e)"
  by (simp add: validateInputFile_def)

theorem validateInputFile_existence_first_witness:
  "\<not> existsSync videos_fs ''/videos/gone.avi'' \<and>
   path_extname ''/videos/gone.avi'' = ''.avi'' \<and>
   fst (validateInputFile videos_fs ''/videos/gone.avi'') = Inl (NotFound ''/videos/gone.avi'') \<and>
   fst (validateInputFile videos_fs ''/videos/gone.avi'') \<noteq> Inl (UnsupportedFormat ''.avi'')"
proof -
  have e: "\<not> existsSync videos_fs ''/videos/gone.avi''"
    by (simp add: existsSync_def videos_fs_def)
  have x: "path_extname ''/videos/gone.avi'' = ''.avi''"
    by (simp add: path_extname_examples)
  from validateInputFile_existence_first [OF e, of "''.avi''"] e x
  show ?thesis by (intro conjI) simp_all
qed

section \<open>Properties of the sub-manifest rewrite\<close>

lemma updatePlaylistContent_skip:
  "\<forall>e \<in> set m. \<not> (startsWith (fst e) (d @ ''/'') \<and> endsWith (fst e) ''.ts'') \<Longrightarrow>
     updatePlaylistContent replace c d m = Some c"
  by (induction m arbitrary: c) auto

lemma updatePlaylistContent_filter:
  "updatePlaylistContent replace c d m =
   updatePlaylistContent replace c d (filter (\<lambda>e. startsWith (fst e) (d @ ''/'')) m)"
  by (induction m arbitrary: c) (auto split: option.splits)

text \<open>
  Claim C3, at the input where the code departs from it. The mapping holds the segment
  \<open>stream_0/data000.ts\<close>; the manifest has the line \<open>data000.ts\<close> and the line
  \<open>data000_ts\<close>, which is no segment's file name. The file name is placed in the
  pattern as it stands, so its dot matches any character, and both lines are replaced
  by the segment's retrieval URL.
\<close>

theorem updatePlaylistContent_unescaped_dot:
  "updatePlaylistContent js_replace
     (''data000.ts'' @ [CHR 0x0A] @ ''data000_ts'' @ [CHR 0x0A]) ''stream_0''
     [(''stream_0/data000.ts'', ''B'')]
   = Some (BLOB_ENDPOINT @ ''/B'' @ [CHR 0x0A] @ BLOB_ENDPOINT @ ''/B'' @ [CHR 0x0A])"
  by code_simp

text \<open>
  Claim C10. When no entry of the mapping both lies under the rendition directory and
  ends in \<open>.ts\<close>, the sub-manifest rewrite returns its input text; and the entries
  that do not lie under the rendition directory never change the result, whatever the
  mapping.
\<close>

theorem updatePlaylistContent_identity:
  "((\<forall>e \<in> set m. \<not> (startsWith (fst e) (d @ ''/'') \<and> endsWith (fst e) ''.ts'')) \<longrightarrow>
      updatePlaylistContent replace c d m = Some c) \<and>
   updatePlaylistContent replace c d m =
     updatePlaylistContent replace c d (filter (\<lambda>e. startsWith (fst e) (d @ ''/'')) m)"
  using updatePlaylistContent_skip updatePlaylistContent_filter by blast

theorem updatePlaylistContent_identity_witness:
  "\<not> (startsWith ''stream_1/data000.ts'' (''stream_0'' @ ''/'') \<and>
      endsWith ''stream_1/data000.ts'' ''.ts'') \<and>
   \<not> (startsWith ''stream_0/playlist.m3u8'' (''stream_0'' @ ''/'') \<and>
      endsWith ''stream_0/playlist.m3u8'' ''.ts'') \<and>
   updatePlaylistContent js_replace (''#EXTM3U'' @ [CHR 0x0A] @ ''data000.ts'' @ [CHR 0x0A]) ''stream_0''
     [(''stream_1/data000.ts'', ''B''), (''stream_0/playlist.m3u8'', ''P'')]
   = Some (''#EXTM3U'' @ [CHR 0x0A] @ ''data000.ts'' @ [CHR 0x0A])"
proof -
  have h: "\<forall>e \<in> set [(''stream_1/data000.ts'', ''B''), (''stream_0/playlist.m3u8'', ''P'')].
             \<not> (startsWith (fst e) (''stream_0'' @ ''/'') \<and> endsWith (fst e) ''.ts'')"
    by (simp add: startsWith_def endsWith_def suffix_to_prefix)
  from updatePlaylistContent_identity
         [of "[(''stream_1/data000.ts'', ''B''), (''stream_0/playlist.m3u8'', ''P'')]"
             "''stream_0''" js_replace "''#EXTM3U'' @ [CHR 0x0A] @ ''data000.ts'' @ [CHR 0x0A]"] h
  show ?thesis by (simp add: startsWith_def endsWith_def suffix_to_prefix)
qed

section \<open>Properties of the master-manifest rewrite\<close>

lemma text_lines_plain: "no_terminator l \<Longrightarrow> text_lines l = [l]"
  by (induction l) auto

lemma text_lines_append:
  "no_terminator l \<Longrightarrow> is_line_terminator t \<Longrightarrow> text_lines (l @ t # s) = l # text_lines s"
  by (induction l) auto

lemma get_substitution_plain:
  "CHR ''$'' \<notin> set repl \<Longrightarrow> get_substitution m pre post repl = repl"
  by (induction m pre post repl rule: get_substitution.induct) auto

lemma rx_match_literal_line:
  "no_terminator w \<Longrightarrow>
     rx_match (map Lit w @ [Eol]) prev s =
       (if takeWhile (\<lambda>c. \<not> is_line_terminator c) s = w
        then Some (w, dropWhile (\<lambda>c. \<not> is_line_terminator c) s) else None)"
proof (induction w arbitrary: prev s)
  case Nil
  then show ?case by (cases s) auto
next
  case (Cons c w)
  then show ?case by (cases s) auto
qed

lemma at_line_start_match:
  assumes "no_terminator w" and "pre = [] \<or> is_line_terminator (last pre)"
  shows "rx_match (Bol # map Lit w @ [Eol]) (last_char pre) s =
       (if takeWhile (\<lambda>c. \<not> is_line_terminator c) s = w
        then Some (w, dropWhile (\<lambda>c. \<not> is_line_terminator c) s) else None)"
  using assms rx_match_literal_line [of w "last_char pre" s]
  by (auto simp: last_char_def)

lemma mid_line_step:
  assumes "pre \<noteq> []" and "\<not> is_line_terminator (last pre)"
  shows "rx_replace_from (Bol # p) repl pre s =
           (case s of [] \<Rightarrow> [] | x # xs \<Rightarrow> x # rx_replace_from (Bol # p) repl (pre @ [x]) xs)"
  using assms by (subst rx_replace_from.simps) (simp add: last_char_def)

lemma mid_line_copy:
  assumes "pre \<noteq> []" and "\<not> is_line_terminator (last pre)"
  shows "rx_replace_from (Bol # p) repl pre s =
           takeWhile (\<lambda>c. \<not> is_line_terminator c) s @
           (case dropWhile (\<lambda>c. \<not> is_line_terminator c) s of
              [] \<Rightarrow> []
            | t # r \<Rightarrow> t # rx_replace_from (Bol # p) repl
                              (pre @ takeWhile (\<lambda>c. \<not> is_line_terminator c) s @ [t]) r)"
  using assms
proof (induction s arbitrary: pre)
  case Nil
  then show ?case by (simp add: mid_line_step)
next
  case (Cons x xs)
  show ?case
  proof (cases "is_line_terminator x")
    case True
    with Cons.prems show ?thesis by (simp add: mid_line_step)
  next
    case False
    have "rx_replace_from (Bol # p) repl pre (x # xs) =
            x # rx_replace_from (Bol # p) repl (pre @ [x]) xs"
      using Cons.prems by (simp add: mid_line_step)
    also have "rx_replace_from (Bol # p) repl (pre @ [x]) xs =
           takeWhile (\<lambda>c. \<not> is_line_terminator c) xs @
           (case dropWhile (\<lambda>c. \<not> is_line_terminator c) xs of
              [] \<Rightarrow> []
            | t # r \<Rightarrow> t # rx_replace_from (Bol # p) repl
                              (pre @ x # takeWhile (\<lambda>c. \<not> is_line_terminator c) xs @ [t]) r)"
      using Cons.IH [of "pre @ [x]"] False by (simp cong: list.case_cong)
    finally show ?thesis using False by (simp cong: list.case_cong)
  qed
qed

lemma drop_line_head:
  "dropWhile (\<lambda>c. \<not> is_line_terminator c) s = t # r \<Longrightarrow> is_line_terminator t"
  using hd_dropWhile [of "\<lambda>c. \<not> is_line_terminator c" s] by auto

lemma no_terminator_takeWhile: "no_terminator (takeWhile (\<lambda>c. \<not> is_line_terminator c) s)"
  by (auto dest: set_takeWhileD)

lemma replace_literal_line:
  assumes w: "w \<noteq> []" "no_terminator w" and repl: "CHR ''$'' \<notin> set repl" "no_terminator repl"
  shows "pre = [] \<or> is_line_terminator (last pre) \<Longrightarrow>
     text_lines (rx_replace_from (Bol # map Lit w @ [Eol]) repl pre s) =
       map (\<lambda>l. if l = w then repl else l) (text_lines s)"
proof (induction s arbitrary: pre rule: length_induct)
  case (1 s)
  let ?P = "Bol # map Lit w @ [Eol]"
  let ?f = "\<lambda>l. if l = w then repl else l"
  let ?l = "takeWhile (\<lambda>c. \<not> is_line_terminator c) s"
  let ?r = "dropWhile (\<lambda>c. \<not> is_line_terminator c) s"
  have IH: "text_lines (rx_replace_from ?P repl pre' s') = map ?f (text_lines s')"
    if "length s' < length s" "pre' = [] \<or> is_line_terminator (last pre')" for s' pre'
    using 1 that by blast
  have s: "s = ?l @ ?r" by simp
  have nl: "no_terminator ?l" by (rule no_terminator_takeWhile)
  \<comment> \<open>what follows the first line, once the search stands behind a line that is not empty\<close>
  have tail: "text_lines (l' @ rx_replace_from ?P repl (pre @ ?l) ?r) = l' # map ?f (tl (text_lines s))"
    if "no_terminator l'" "?l \<noteq> []" for l'
  proof (cases ?r)
    case Nil
    have ts: "text_lines s = [?l]"
      by (metis s Nil append_Nil2 text_lines_plain nl)
    have rx0: "rx_replace_from ?P repl (pre @ ?l) ?r = []"
      unfolding Nil using that(2) nl by (subst mid_line_step) (auto simp: last_in_set)
    show ?thesis unfolding rx0 ts using that(1) by (simp add: text_lines_plain)
  next
    case (Cons t r)
    then have t: "is_line_terminator t" by (rule drop_line_head)
    have sr: "s = ?l @ t # r" using s Cons by simp
    have len: "length r < length s"
      using arg_cong [OF sr, of length] by simp
    have "rx_replace_from ?P repl (pre @ ?l) (t # r) = t # rx_replace_from ?P repl ((pre @ ?l) @ [t]) r"
      using that(2) nl by (subst mid_line_step) (auto simp: last_in_set)
    moreover have "text_lines (rx_replace_from ?P repl ((pre @ ?l) @ [t]) r) = map ?f (text_lines r)"
      using len t by (intro IH) simp_all
    moreover have "text_lines s = ?l # text_lines r"
      using text_lines_append [OF nl t, of r] sr by simp
    ultimately show ?thesis using Cons that(1) t by (simp add: text_lines_append)
  qed
  show ?case
  proof (cases "?l = w")
    case True
    have m: "rx_match ?P (last_char pre) s = Some (w, ?r)"
      using at_line_start_match [OF w(2) "1.prems", of s] True by simp
    have "rx_replace_from ?P repl pre s = repl @ rx_replace_from ?P repl (pre @ w) ?r"
      using m w(1) repl(1) by (subst rx_replace_from.simps) (simp add: get_substitution_plain)
    moreover obtain ls where ls: "text_lines s = w # ls"
    proof (cases ?r)
      case Nil
      have "text_lines s = [w]"
        by (metis s Nil True append_Nil2 text_lines_plain w(2))
      then show ?thesis using that by simp
    next
      case (Cons t r)
      then have "is_line_terminator t" by (rule drop_line_head)
      from text_lines_append [OF w(2) this, of r] s True Cons have "text_lines s = w # text_lines r"
        by simp
      then show ?thesis using that by simp
    qed
    moreover have "text_lines (repl @ rx_replace_from ?P repl (pre @ ?l) ?r) = repl # map ?f (tl (text_lines s))"
      using repl(2) w(1) True by (intro tail) simp_all
    ultimately show ?thesis using True by simp
  next
    case False
    have m: "rx_match ?P (last_char pre) s = None"
      using at_line_start_match [OF w(2) "1.prems", of s] False by simp
    show ?thesis
    proof (cases s)
      case Nil
      with m w(1) show ?thesis by (subst rx_replace_from.simps) auto
    next
      case (Cons x xs)
      have step: "rx_replace_from ?P repl pre s = x # rx_replace_from ?P repl (pre @ [x]) xs"
        using m Cons by (subst rx_replace_from.simps) simp
      show ?thesis
      proof (cases "is_line_terminator x")
        case True
        have "text_lines (rx_replace_from ?P repl (pre @ [x]) xs) = map ?f (text_lines xs)"
          using Cons True by (intro IH) simp_all
        with step True Cons w(1) show ?thesis by auto
      next
        case nt: False
        then have l: "?l = x # takeWhile (\<lambda>c. \<not> is_line_terminator c) xs"
          and r: "?r = dropWhile (\<lambda>c. \<not> is_line_terminator c) xs"
          using Cons by simp_all
        have "rx_replace_from ?P repl (pre @ [x]) xs =
                takeWhile (\<lambda>c. \<not> is_line_terminator c) xs @
                (case ?r of [] \<Rightarrow> []
                 | t # r' \<Rightarrow> t # rx_replace_from ?P repl
                      ((pre @ [x]) @ takeWhile (\<lambda>c. \<not> is_line_terminator c) xs @ [t]) r')"
          unfolding r using nt by (intro mid_line_copy) simp_all
        with step l have res: "rx_replace_from ?P repl pre s =
                ?l @ (case ?r of [] \<Rightarrow> []
                 | t # r' \<Rightarrow> t # rx_replace_from ?P repl (pre @ ?l @ [t]) r')"
          by (simp cong: list.case_cong)
        show ?thesis
        proof (cases ?r)
          case Nil
          have ts: "text_lines s = [?l]"
            by (metis s Nil append_Nil2 text_lines_plain nl)
          have "rx_replace_from ?P repl pre s = ?l"
            using res unfolding Nil by simp
          then show ?thesis
            unfolding ts using False text_lines_plain [OF nl] by simp
        next
          case (Cons t r')
          then have t: "is_line_terminator t" by (rule drop_line_head)
          have sr: "s = ?l @ t # r'" using s Cons by simp
          have len: "length r' < length s"
            using arg_cong [OF sr, of length] by simp
          have "text_lines (rx_replace_from ?P repl (pre @ ?l @ [t]) r') = map ?f (text_lines r')"
            using len t by (intro IH) simp_all
          moreover have "text_lines s = ?l # text_lines r'"
            using text_lines_append [OF nl t, of r'] sr by simp
          ultimately show ?thesis
            using res Cons False t nl by (simp add: text_lines_append)
        qed
      qed
    qed
  qed
qed

lemma plain_char_simps:
  "plain_char c \<Longrightarrow> c \<noteq> CHR 0x5C \<and> c \<noteq> CHR ''.'' \<and> c \<noteq> CHR ''^'' \<and> c \<noteq> CHR ''$'' \<and>
     c \<notin> set syntax_chars \<and> c \<noteq> CHR ''/'' \<and> \<not> is_line_terminator c"
  by (simp add: plain_char_def syntax_chars_def)

lemma parse_pattern_plain:
  "list_all plain_char d \<Longrightarrow>
     parse_pattern (d @ rest) = map_option ((@) (map Lit d)) (parse_pattern rest)"
proof (induction d)
  case Nil
  then show ?case by (simp add: option.map_ident)
next
  case (Cons c d)
  then have "plain_char c" by simp
  note c = plain_char_simps [OF this]
  from Cons have "parse_pattern (d @ rest) = map_option ((@) (map Lit d)) (parse_pattern rest)"
    by simp
  then show ?case using c by (cases "parse_pattern rest") simp_all
qed

lemma parse_master_pattern:
  "list_all plain_char d \<Longrightarrow>
     parse_pattern (''^'' @ d @ ''/playlist'' @ [CHR 0x5C] @ ''.m3u8$'') =
       Some (Bol # map Lit (d @ ''/playlist.m3u8'') @ [Eol])"
  using parse_pattern_plain [of d "''/playlist'' @ [CHR 0x5C] @ ''.m3u8$''"]
  by (simp add: syntax_chars_def)

lemma path_dirname_sub_manifest:
  assumes "plain_name d"
  shows "path_dirname (d @ ''/playlist.m3u8'') = d"
proof -
  from assms obtain h t where d: "d = h # t" and h: "plain_char h" and t: "list_all plain_char t"
    by (cases d) (auto simp: plain_name_def)
  from t have "CHR ''/'' \<notin> set t"
    by (auto simp: list_all_iff plain_char_def)
  then have "dropWhile (\<lambda>c. c \<noteq> CHR ''/'') (rev t) = []"
    by (induction t) auto
  then show ?thesis
    using h by (simp add: path_dirname_def d plain_char_def dropWhile_append)
qed

lemma url_plain:
  "plain_blob_id b \<Longrightarrow>
     CHR ''$'' \<notin> set (BLOB_ENDPOINT @ ''/'' @ b) \<and> no_terminator (BLOB_ENDPOINT @ ''/'' @ b)"
  by (auto simp: BLOB_ENDPOINT_def AGGREGATOR_def plain_blob_id_def list_all_iff
        is_line_terminator_def)

lemma sub_manifest_key_neq_url:
  assumes "sub_manifest_key k"
  shows "k \<noteq> BLOB_ENDPOINT @ ''/'' @ b"
proof
  assume eq: "k = BLOB_ENDPOINT @ ''/'' @ b"
  from assms obtain d where k: "k = d @ ''/playlist.m3u8''" and d: "list_all plain_char d"
    by (auto simp: sub_manifest_key_def plain_name_def)
  from d have "\<forall>c \<in> set d. c \<noteq> CHR ''/''"
    by (auto simp: list_all_iff plain_char_def)
  then have "dropWhile (\<lambda>c. c \<noteq> CHR ''/'') k = ''/playlist.m3u8''"
    unfolding k by (simp add: dropWhile_append)
  moreover have "dropWhile (\<lambda>c. c \<noteq> CHR ''/'') (BLOB_ENDPOINT @ ''/'' @ b) =
      ''//aggregator.walrus-testnet.walrus.space/v1/blobs/'' @ b"
    by (simp add: BLOB_ENDPOINT_def AGGREGATOR_def)
  ultimately show False using eq by simp
qed

lemma sub_manifest_key_plain:
  assumes "sub_manifest_key k"
  shows "k \<noteq> []" and "no_terminator k"
    and "parse_pattern (''^'' @ path_dirname k @ ''/playlist'' @ [CHR 0x5C] @ ''.m3u8$'') =
           Some (Bol # map Lit k @ [Eol])"
proof -
  from assms obtain d where k: "k = d @ ''/playlist.m3u8''" and d: "plain_name d"
    by (auto simp: sub_manifest_key_def)
  show "k \<noteq> []" by (simp add: k)
  from d show "no_terminator k"
    by (auto simp: k plain_name_def list_all_iff plain_char_def is_line_terminator_def)
  from d have "list_all plain_char d" by (simp add: plain_name_def)
  from parse_master_pattern [OF this] path_dirname_sub_manifest [OF d]
  show "parse_pattern (''^'' @ path_dirname k @ ''/playlist'' @ [CHR 0x5C] @ ''.m3u8$'') =
           Some (Bol # map Lit k @ [Eol])"
    by (simp add: k)
qed

lemma master_step:
  assumes "sub_manifest_key k" and "plain_blob_id b"
  shows "\<exists>out. js_replace T (''^'' @ path_dirname k @ ''/playlist'' @ [CHR 0x5C] @ ''.m3u8$'')
                  (BLOB_ENDPOINT @ ''/'' @ b) = Some out \<and>
               text_lines out =
                 map (\<lambda>l. if l = k then BLOB_ENDPOINT @ ''/'' @ b else l) (text_lines T)"
proof -
  note kp = sub_manifest_key_plain [OF assms(1)]
  note up = url_plain [OF assms(2)]
  have "text_lines (rx_replace_from (Bol # map Lit k @ [Eol]) (BLOB_ENDPOINT @ ''/'' @ b) [] T) =
          map (\<lambda>l. if l = k then BLOB_ENDPOINT @ ''/'' @ b else l) (text_lines T)"
    using kp(1,2) up by (intro replace_literal_line) simp_all
  then show ?thesis
    unfolding js_replace_def kp(3) by simp
qed

lemma sub_manifests_plain_Cons:
  "sub_manifests_plain (e # m) \<Longrightarrow> sub_manifests_plain m"
  by (simp add: sub_manifests_plain_def)

lemma updateMasterContent_lines:
  "sub_manifests_plain m \<Longrightarrow>
     \<exists>out. updateMasterContent js_replace T m = Some out \<and>
           text_lines out = map (master_line m) (text_lines T)"
proof (induction m arbitrary: T)
  case Nil
  then show ?case by simp
next
  case (Cons e m)
  obtain k b where e: "e = (k, b)" by (cases e)
  from Cons.prems have pm: "sub_manifests_plain m" by (rule sub_manifests_plain_Cons)
  show ?case
  proof (cases "endsWith k ''playlist.m3u8''")
    case False
    with Cons.IH [OF pm, of T] e show ?thesis by simp
  next
    case True
    with Cons.prems e have "sub_manifest_key k" "plain_blob_id b"
      by (simp_all add: sub_manifests_plain_def)
    from master_step [OF this, of T] obtain out1 where
      o1: "js_replace T (''^'' @ path_dirname k @ ''/playlist'' @ [CHR 0x5C] @ ''.m3u8$'')
             (BLOB_ENDPOINT @ ''/'' @ b) = Some out1" and
      l1: "text_lines out1 = map (\<lambda>l. if l = k then BLOB_ENDPOINT @ ''/'' @ b else l) (text_lines T)"
      by blast
    from Cons.IH [OF pm, of out1] obtain out where
      o: "updateMasterContent js_replace out1 m = Some out" and
      l: "text_lines out = map (master_line m) (text_lines out1)"
      by blast
    have "updateMasterContent js_replace T (e # m) = Some out"
      using True o1 o by (simp add: e)
    moreover have "text_lines out = map (master_line (e # m)) (text_lines T)"
      using True by (simp add: l l1 e)
    ultimately show ?thesis by blast
  qed
qed

lemma master_line_other:
  "\<forall>e \<in> set m. endsWith (fst e) ''playlist.m3u8'' \<longrightarrow> fst e \<noteq> l \<Longrightarrow> master_line m l = l"
  by (induction m arbitrary: l) auto

lemma master_line_key:
  "sub_manifests_plain m \<Longrightarrow> map_of m k = Some b \<Longrightarrow> endsWith k ''playlist.m3u8'' \<Longrightarrow>
     master_line m k = BLOB_ENDPOINT @ ''/'' @ b"
proof (induction m)
  case Nil
  then show ?case by simp
next
  case (Cons e m)
  obtain k' b' where e: "e = (k', b')" by (cases e)
  from Cons.prems(1) have pm: "sub_manifests_plain m" by (rule sub_manifests_plain_Cons)
  show ?case
  proof (cases "k' = k")
    case True
    with Cons.prems e have b: "b' = b" by simp
    have "\<forall>e \<in> set m. endsWith (fst e) ''playlist.m3u8'' \<longrightarrow> fst e \<noteq> BLOB_ENDPOINT @ ''/'' @ b"
      using pm sub_manifest_key_neq_url by (auto simp: sub_manifests_plain_def)
    from master_line_other [OF this] True b e Cons.prems(3) show ?thesis by simp
  next
    case False
    with Cons.prems e have "map_of m k = Some b" by simp
    from Cons.IH [OF pm this Cons.prems(3)] False e show ?thesis by simp
  qed
qed

text \<open>
  What the master-manifest pass does over a mapping whose sub-manifest keys are plain
  directory names followed by \<open>/playlist.m3u8\<close> and carry plain identifiers, as a
  run over the transcoder's directories \<open>stream_<n>\<close> builds it: the number of lines
  stays, and every line equal to such a key becomes the entry's retrieval URL.
\<close>

lemma updateMasterContent_sub_manifest_lines:
  assumes "sub_manifests_plain blobMappings"
  shows "\<exists>out. updateMasterContent js_replace masterContent blobMappings = Some out \<and>
           length (text_lines out) = length (text_lines masterContent) \<and>
           (\<forall>i < length (text_lines masterContent). \<forall>d blobId.
              text_lines masterContent ! i = d @ ''/playlist.m3u8'' \<and>
              map_of blobMappings (d @ ''/playlist.m3u8'') = Some blobId \<longrightarrow>
                text_lines out ! i = BLOB_ENDPOINT @ ''/'' @ blobId)"
proof -
  from updateMasterContent_lines [OF assms, of masterContent] obtain out where
    o: "updateMasterContent js_replace masterContent blobMappings = Some out" and
    l: "text_lines out = map (master_line blobMappings) (text_lines masterContent)"
    by blast
  have "text_lines out ! i = BLOB_ENDPOINT @ ''/'' @ blobId"
    if "i < length (text_lines masterContent)"
      "text_lines masterContent ! i = d @ ''/playlist.m3u8''"
      "map_of blobMappings (d @ ''/playlist.m3u8'') = Some blobId" for i d blobId
  proof -
    have "endsWith (d @ ''/playlist.m3u8'') ''playlist.m3u8''"
      by (simp add: endsWith_def suffix_def)
    from master_line_key [OF assms that(3) this] that(1,2) show ?thesis
      by (simp add: l)
  qed
  with o l show ?thesis by auto
qed

section \<open>Properties of the dictionaries\<close>

lemma slash_not_special:
  assumes "CHR ''/'' \<in> set k"
  shows "k \<noteq> ''__proto__''" and "\<not> is_array_index k" and "k \<notin> set object_prototype_names"
proof -
  from assms show "k \<noteq> ''__proto__''" by auto
  from assms show "\<not> is_array_index k"
    by (auto simp: is_array_index_def list_all_iff is_digit_def)
  from assms show "k \<notin> set object_prototype_names"
    by (auto simp: object_prototype_names_def)
qed

lemma path_join_slash: "CHR ''/'' \<in> set (path_join a b)"
  by (simp add: path_join_def)

lemma obj_set_path: "CHR ''/'' \<in> set k \<Longrightarrow> obj_set obj k v = AList.update k v obj"
  using slash_not_special [of k] by (simp add: obj_set_def)

lemma insert_index_set: "set (insert_index k v obj) = insert (k, v) (set obj)"
  by (induction obj) (auto split: if_splits)

lemma insert_index_distinct:
  "distinct (map fst obj) \<Longrightarrow> k \<notin> fst ` set obj \<Longrightarrow> distinct (map fst (insert_index k v obj))"
  by (induction obj) (auto simp: insert_index_set)

lemma insert_index_map_of:
  "k \<notin> fst ` set obj \<Longrightarrow>
     map_of (insert_index k v obj) x = (if x = k then Some v else map_of obj x)"
  by (induction obj) auto

lemma obj_set_keys:
  "fst ` set (obj_set obj k v) =
     (if k = ''__proto__'' then fst ` set obj else insert k (fst ` set obj))"
  by (auto simp: obj_set_def insert_index_set dom_update)

lemma obj_set_distinct: "distinct (map fst obj) \<Longrightarrow> distinct (map fst (obj_set obj k v))"
  by (auto simp: obj_set_def distinct_update map_of_eq_None_iff intro: insert_index_distinct)

lemma obj_set_map_of:
  "map_of (obj_set obj k v) x =
     (if k = ''__proto__'' then map_of obj x else if x = k then Some v else map_of obj x)"
  by (auto simp: obj_set_def update_conv' insert_index_map_of map_of_eq_None_iff)

lemma obj_get_path: "CHR ''/'' \<in> set k \<Longrightarrow> map_of obj k = Some v \<Longrightarrow> obj_get obj k = Own v"
  by (simp add: obj_get_def)

section \<open>Properties of the batch uploader\<close>

lemma collect_keys:
  "fst ` set (collect_blobMappings m rs) =
     fst ` set m \<union>
     {path r |r. r \<in> set rs \<and> resolve_blobId r \<noteq> None \<and> path r \<noteq> ''__proto__''}"
  by (induction rs arbitrary: m) (auto simp: obj_set_keys split: option.splits)

lemma collect_distinct:
  "distinct (map fst m) \<Longrightarrow> distinct (map fst (collect_blobMappings m rs))"
  by (induction rs arbitrary: m) (auto simp: obj_set_distinct split: option.splits)

lemma collect_lookup_other:
  "k \<notin> path ` set rs \<Longrightarrow> map_of (collect_blobMappings m rs) k = map_of m k"
  by (induction rs arbitrary: m) (auto simp: obj_set_map_of split: option.splits)

lemma collect_lookup:
  "distinct (map path rs) \<Longrightarrow> r \<in> set rs \<Longrightarrow> resolve_blobId r = Some b \<Longrightarrow>
     path r \<noteq> ''__proto__'' \<Longrightarrow> map_of (collect_blobMappings m rs) (path r) = Some b"
proof (induction rs arbitrary: m)
  case Nil
  then show ?case by simp
next
  case (Cons a rs)
  show ?case
  proof (cases "r = a")
    case True
    with Cons.prems have "path r \<notin> path ` set rs" by auto
    from collect_lookup_other [OF this] True Cons.prems show ?thesis
      by (simp add: obj_set_map_of)
  next
    case False
    with Cons show ?thesis by (auto split: option.splits)
  qed
qed

text \<open>
  What every call of the uploader whose command succeeds returns, whatever the result
  list: the mapping has one entry for every path, other than \<open>__proto__\<close>, of an entry
  of the list that resolved an identifier, and when the paths of the list are distinct
  the entry carries that identifier. The identifier an entry resolves is the
  already-certified one when it is there and not the empty string, otherwise the newly
  created blob's when it is there and not the empty string, otherwise none.
\<close>

lemma uploadToWalrus_entries:
  assumes "walrus assetsDir filePaths fs = Some results"
  shows "\<exists>blobMappings. uploadToWalrus walrus fs filePaths assetsDir = Inr blobMappings \<and>
    fst ` set blobMappings =
      {path r |r. r \<in> set results \<and> resolve_blobId r \<noteq> None \<and> path r \<noteq> ''__proto__''} \<and>
    distinct (map fst blobMappings) \<and>
    (distinct (map path results) \<longrightarrow>
       (\<forall>r \<in> set results. \<forall>b. resolve_blobId r = Some b \<and> path r \<noteq> ''__proto__'' \<longrightarrow>
          map_of blobMappings (path r) = Some b))"
proof -
  have 1: "uploadToWalrus walrus fs filePaths assetsDir = Inr (collect_blobMappings [] results)"
    using assms by (simp add: uploadToWalrus_def)
  have 2: "fst ` set (collect_blobMappings [] results) =
      {path r |r. r \<in> set results \<and> resolve_blobId r \<noteq> None \<and> path r \<noteq> ''__proto__''}"
    by (simp add: collect_keys)
  have 3: "distinct (map fst (collect_blobMappings [] results))"
    by (rule collect_distinct) simp
  have 4: "distinct (map path results) \<longrightarrow>
       (\<forall>r \<in> set results. \<forall>b. resolve_blobId r = Some b \<and> path r \<noteq> ''__proto__'' \<longrightarrow>
          map_of (collect_blobMappings [] results) (path r) = Some b)"
    using collect_lookup by blast
  from 1 2 3 4 show ?thesis by blast
qed

lemma resolve_blobId_conv:
  "resolve_blobId r =
     (case alreadyCertified (blobStoreResult r) of
        Some a \<Rightarrow>
          if ac_blobId a \<noteq> [] then Some (ac_blobId a)
          else (case newlyCreated (blobStoreResult r) of
                  Some n \<Rightarrow> if bo_blobId (blobObject n) \<noteq> [] then Some (bo_blobId (blobObject n))
                            else None
                | None \<Rightarrow> None)
      | None \<Rightarrow>
          (case newlyCreated (blobStoreResult r) of
             Some n \<Rightarrow> if bo_blobId (blobObject n) \<noteq> [] then Some (bo_blobId (blobObject n))
                       else None
           | None \<Rightarrow> None))"
  by (simp add: resolve_blobId_def split: option.splits)

lemma uploadToWalrus_keys:
  assumes "stores_all walrus" and "uploadToWalrus walrus fs ps dir = Inr m"
    and "''__proto__'' \<notin> set ps"
  shows "fst ` set m = set ps \<and> distinct (map fst m)"
proof -
  from assms(2) obtain rs where rs: "walrus dir ps fs = Some rs" and m: "m = collect_blobMappings [] rs"
    by (auto simp: uploadToWalrus_def split: option.splits)
  from assms(1) rs have p: "set (map path rs) = set ps" and r: "\<forall>r \<in> set rs. resolve_blobId r \<noteq> None"
    unfolding stores_all_def by blast+
  have "path r \<noteq> ''__proto__''" if "r \<in> set rs" for r
  proof -
    from that have "path r \<in> set (map path rs)" by simp
    with p assms(3) show ?thesis by auto
  qed
  with r have "{path r |r. r \<in> set rs \<and> resolve_blobId r \<noteq> None \<and> path r \<noteq> ''__proto__''}
      = path ` set rs"
    by blast
  with p have "{path r |r. r \<in> set rs \<and> resolve_blobId r \<noteq> None \<and> path r \<noteq> ''__proto__''}
      = set ps"
    by simp
  then have "fst ` set m = set ps"
    unfolding m collect_keys by simp
  moreover have "distinct (map fst m)"
    unfolding m by (rule collect_distinct) simp
  ultimately show ?thesis ..
qed



section \<open>Properties of the asset enumerator\<close>

lemma filter_directories_all:
  "\<forall>item \<in> set items. fs (path_join root item) \<noteq> None \<Longrightarrow>
     filter_directories fs root items =
       Inr (filter (\<lambda>item. is_directory fs (path_join root item)) items)"
  by (induction items)
     (auto simp: statSync_isDirectory_def is_directory_def split: option.splits node.splits)

lemma collectSegmentFiles_all:
  "\<forall>d \<in> set ds. is_directory fs (path_join root d) \<Longrightarrow>
     collectSegmentFiles fs ds root =
       Inr (concat (map (\<lambda>d. map (path_join d)
                                  (filter (\<lambda>file. endsWith file ''.ts'')
                                     (listing fs (path_join root d)))) ds))"
  by (induction ds)
     (auto simp: readdirSync_def is_directory_def listing_def split: option.splits node.splits)

text \<open>
  Claim C8, amended. When every name of the output directory's listing is there, the
  enumerator selects exactly the immediate subdirectories whose name begins with
  \<open>stream_\<close>, whatever follows the prefix, and from each selected directory exactly
  the entries of its listing whose name ends in \<open>.ts\<close>, yielding the relative paths
  in one sequence in the order of the listings.
\<close>

theorem enumerator_selects:
  assumes "fs assetsPath = Some (Dir items)"
    and "\<forall>item \<in> set items. fs (path_join assetsPath item) \<noteq> None"
    and "streamDirs =
           filter (\<lambda>item. is_directory fs (path_join assetsPath item) \<and> startsWith item ''stream_'')
             items"
  shows "getStreamDirectories fs assetsPath = Inr streamDirs \<and>
         collectSegmentFiles fs streamDirs assetsPath =
           Inr (concat (map (\<lambda>d. map (path_join d)
                                      (filter (\<lambda>file. endsWith file ''.ts'')
                                         (listing fs (path_join assetsPath d)))) streamDirs))"
proof -
  have "getStreamDirectories fs assetsPath = Inr streamDirs"
    using assms(1) filter_directories_all [OF assms(2)]
    by (simp add: getStreamDirectories_def readdirSync_def assms(3))
  moreover have "\<forall>d \<in> set streamDirs. is_directory fs (path_join assetsPath d)"
    by (simp add: assms(3))
  ultimately show ?thesis
    using collectSegmentFiles_all by blast
qed

text \<open>
  Claim C8, at an input where it fails. The directory \<open>stream_backup\<close> is not named by
  the convention of the prefix and an ordinal, yet it is selected, and its segment file
  is among the paths.
\<close>

theorem enumerator_unnamed_ordinal:
  "getStreamDirectories backup_fs ''/out'' = Inr [''stream_0'', ''stream_backup''] \<and>
   \<not> rendition_name ''stream_backup'' \<and>
   collectSegmentFiles backup_fs [''stream_0'', ''stream_backup''] ''/out'' =
     Inr [''stream_0/data000.ts'', ''stream_0/data001.ts'', ''stream_backup/old.ts'']"
  by code_simp

theorem enumerator_selects_witness:
  "backup_fs ''/out'' = Some (Dir [''stream_0'', ''notes.txt'', ''stream_backup'', ''logs'']) \<and>
   filter (\<lambda>item. is_directory backup_fs (path_join ''/out'' item) \<and> startsWith item ''stream_'')
     [''stream_0'', ''notes.txt'', ''stream_backup'', ''logs''] = [''stream_0'', ''stream_backup''] \<and>
   getStreamDirectories backup_fs ''/out'' = Inr [''stream_0'', ''stream_backup''] \<and>
   collectSegmentFiles backup_fs [''stream_0'', ''stream_backup''] ''/out'' =
     Inr [''stream_0/data000.ts'', ''stream_0/data001.ts'', ''stream_backup/old.ts'']"
proof -
  have 1: "backup_fs ''/out'' = Some (Dir [''stream_0'', ''notes.txt'', ''stream_backup'', ''logs''])"
    by (simp add: backup_fs_def)
  have 2: "\<forall>item \<in> set [''stream_0'', ''notes.txt'', ''stream_backup'', ''logs''].
             backup_fs (path_join ''/out'' item) \<noteq> None"
    by (simp add: backup_fs_def path_join_def)
  have 3: "[''stream_0'', ''stream_backup''] =
      filter (\<lambda>item. is_directory backup_fs (path_join ''/out'' item) \<and> startsWith item ''stream_'')
        [''stream_0'', ''notes.txt'', ''stream_backup'', ''logs'']"
    by code_simp
  have 4: "concat (map (\<lambda>d. map (path_join d)
                                      (filter (\<lambda>file. endsWith file ''.ts'')
                                         (listing backup_fs (path_join ''/out'' d))))
                     [''stream_0'', ''stream_backup'']) =
           [''stream_0/data000.ts'', ''stream_0/data001.ts'', ''stream_backup/old.ts'']"
    by code_simp
  from enumerator_selects [OF 1 2 3] 1 3 4 show ?thesis by simp
qed

section \<open>Properties of the upload pipeline\<close>

lemma path_join_conv: "path_join a b = (if a = ''/'' then [] else a) @ ''/'' @ b"
  by (simp add: path_join_def)

lemma playlist_neq_temp:
  "path_join a ''playlist.m3u8'' \<noteq> path_join b ''temp_playlist.m3u8''"
proof
  assume "path_join a ''playlist.m3u8'' = path_join b ''temp_playlist.m3u8''"
  then have "rev (path_join a ''playlist.m3u8'') = rev (path_join b ''temp_playlist.m3u8'')"
    by simp
  then show False by (simp add: path_join_conv)
qed

lemma path_join_assoc:
  "d \<noteq> [] \<Longrightarrow> d \<noteq> ''/'' \<Longrightarrow> path_join r (path_join d n) = path_join (path_join r d) n"
  by (auto simp: path_join_def append_eq_Cons_conv)

lemma path_join_inject_left:
  "a \<noteq> [] \<Longrightarrow> b \<noteq> [] \<Longrightarrow> path_join a n = path_join b n \<longleftrightarrow> a = b"
  by (auto simp: path_join_def)

lemma stream_dir_nonempty: "startsWith d ''stream_'' \<Longrightarrow> d \<noteq> [] \<and> d \<noteq> ''/''"
  by (auto simp: startsWith_def)

lemma writeFileSync_frame:
  "writeFileSync fs p c = Inr fs' \<Longrightarrow> fs' = fs(p \<mapsto> File c)"
  by (auto simp: writeFileSync_def split: option.splits node.splits)

lemma unlinkSync_frame:
  "unlinkSync fs p = Inr fs' \<Longrightarrow> fs' = fs(p := None)"
  by (auto simp: unlinkSync_def split: option.splits node.splits)

lemma obj_set_path_join:
  "obj_set obj (path_join a b) v = AList.update (path_join a b) v obj"
  by (rule obj_set_path) (rule path_join_slash)

lemma writeTempPlaylists_effect:
  "writeTempPlaylists replace fs root m ds files pm = Inr (fs', files', pm') \<Longrightarrow>
     files' = files @ map (\<lambda>d. path_join d ''temp_playlist.m3u8'') (playlist_dirs fs root ds) \<and>
     pm' = fold (\<lambda>d. AList.update (path_join d ''temp_playlist.m3u8'') (path_join d ''playlist.m3u8''))
             (playlist_dirs fs root ds) pm \<and>
     (\<forall>p. p \<notin> (\<lambda>d. path_join (path_join root d) ''temp_playlist.m3u8'') `
                 set (playlist_dirs fs root ds) \<longrightarrow> fs' p = fs p) \<and>
     (\<forall>p \<in> (\<lambda>d. path_join (path_join root d) ''temp_playlist.m3u8'') `
                 set (playlist_dirs fs root ds). \<exists>c. fs' p = Some (File c))"
proof (induction ds arbitrary: fs files pm)
  case Nil
  then show ?case by (simp add: playlist_dirs_def)
next
  case (Cons d ds)
  let ?pl = "path_join (path_join root d) ''playlist.m3u8''"
  let ?tp = "path_join (path_join root d) ''temp_playlist.m3u8''"
  let ?T = "\<lambda>ds. (\<lambda>d. path_join (path_join root d) ''temp_playlist.m3u8'') ` set (playlist_dirs fs root ds)"
  show ?case
  proof (cases "existsSync fs ?pl")
    case False
    with Cons.prems have "writeTempPlaylists replace fs root m ds files pm = Inr (fs', files', pm')"
      by simp
    from Cons.IH [OF this] False show ?thesis
      by (simp add: playlist_dirs_def)
  next
    case True
    with Cons.prems obtain c' fs1 where
      w: "writeFileSync fs ?tp c' = Inr fs1" and
      r0: "writeTempPlaylists replace fs1 root m ds (files @ [path_join d ''temp_playlist.m3u8''])
            (obj_set pm (path_join d ''temp_playlist.m3u8'') (path_join d ''playlist.m3u8''))
          = Inr (fs', files', pm')"
      by (auto split: sum.splits option.splits)
    from r0 have
      r: "writeTempPlaylists replace fs1 root m ds (files @ [path_join d ''temp_playlist.m3u8''])
            (AList.update (path_join d ''temp_playlist.m3u8'') (path_join d ''playlist.m3u8'') pm)
          = Inr (fs', files', pm')"
      unfolding obj_set_path_join .
    from writeFileSync_frame [OF w] have fs1: "fs1 = fs(?tp \<mapsto> File c')" .
    have same: "playlist_dirs fs1 root ds = playlist_dirs fs root ds"
      by (simp add: playlist_dirs_def existsSync_def fs1 playlist_neq_temp)
    have here: "playlist_dirs fs root (d # ds) = d # playlist_dirs fs root ds"
      using True by (simp add: playlist_dirs_def)
    have T: "?T (d # ds) = insert ?tp (?T ds)"
      by (simp add: here)
    note ih = Cons.IH [OF r, unfolded same]
    from ih have ih1: "files' = (files @ [path_join d ''temp_playlist.m3u8'']) @
        map (\<lambda>d. path_join d ''temp_playlist.m3u8'') (playlist_dirs fs root ds)" by blast
    from ih have ih2: "pm' = fold (\<lambda>d. AList.update (path_join d ''temp_playlist.m3u8'') (path_join d ''playlist.m3u8''))
             (playlist_dirs fs root ds)
             (AList.update (path_join d ''temp_playlist.m3u8'') (path_join d ''playlist.m3u8'') pm)" by blast
    from ih have ih3: "\<And>p. p \<notin> ?T ds \<Longrightarrow> fs' p = fs1 p" by blast
    from ih have ih4: "\<And>p. p \<in> ?T ds \<Longrightarrow> \<exists>c. fs' p = Some (File c)" by blast
    have a: "files' = files @ map (\<lambda>d. path_join d ''temp_playlist.m3u8'') (playlist_dirs fs root (d # ds))"
      using ih1 by (simp add: here)
    have b: "pm' = fold (\<lambda>d. AList.update (path_join d ''temp_playlist.m3u8'') (path_join d ''playlist.m3u8''))
             (playlist_dirs fs root (d # ds)) pm"
      using ih2 by (simp add: here)
    have c: "\<forall>p. p \<notin> ?T (d # ds) \<longrightarrow> fs' p = fs p"
      using ih3 by (simp add: T fs1)
    have e: "\<forall>p \<in> ?T (d # ds). \<exists>c. fs' p = Some (File c)"
    proof
      fix p assume "p \<in> ?T (d # ds)"
      then consider "p \<in> ?T ds" | "p \<notin> ?T ds" "p = ?tp" unfolding T by blast
      then show "\<exists>c. fs' p = Some (File c)"
      proof cases
        case 1
        then show ?thesis by (rule ih4)
      next
        case 2
        with ih3 [of p] show ?thesis by (simp add: fs1)
      qed
    qed
    from a b c e show ?thesis by (intro conjI)
  qed
qed

lemma remapPlaylists_step:
  assumes "remapPlaylists fs root pm m ((t, b) # es) = Inr (fs', m')"
  shows "(truthy_key (obj_get pm t) = None \<and> remapPlaylists fs root pm m es = Inr (fs', m')) \<or>
         (\<exists>orig. truthy_key (obj_get pm t) = Some orig \<and>
            remapPlaylists (fs((path_join root t) := None)) root pm (obj_set m orig b) es
              = Inr (fs', m'))"
proof (cases "truthy_key (obj_get pm t)")
  case None
  with assms show ?thesis by simp
next
  case (Some orig)
  let ?fs1 = "fs((path_join root t) := None)"
  have "remapPlaylists ?fs1 root pm (obj_set m orig b) es = Inr (fs', m')"
  proof (cases "existsSync fs (path_join root t)")
    case True
    with assms Some obtain fs1 where
      u: "unlinkSync fs (path_join root t) = Inr fs1" and
      r1: "remapPlaylists fs1 root pm (obj_set m orig b) es = Inr (fs', m')"
      by (auto split: sum.splits)
    from unlinkSync_frame [OF u] r1 show ?thesis by simp
  next
    case False
    then have "?fs1 = fs" by (auto simp: existsSync_def)
    with assms Some False show ?thesis by simp
  qed
  with Some show ?thesis by simp
qed

lemma remapPlaylists_effect:
  "remapPlaylists fs root pm m es = Inr (fs', m') \<Longrightarrow>
     fst ` set m' =
       fst ` set m \<union>
       {orig. \<exists>t \<in> fst ` set es. truthy_key (obj_get pm t) = Some orig \<and> orig \<noteq> ''__proto__''} \<and>
     (distinct (map fst m) \<longrightarrow> distinct (map fst m')) \<and>
     (\<forall>p. fs' p =
        (if \<exists>t \<in> fst ` set es. truthy_key (obj_get pm t) \<noteq> None \<and> p = path_join root t
         then None else fs p))"
proof (induction es arbitrary: fs m)
  case Nil
  then show ?case by simp
next
  case (Cons e es)
  obtain t b where e: "e = (t, b)" by (cases e)
  from Cons.prems have "remapPlaylists fs root pm m ((t, b) # es) = Inr (fs', m')"
    by (simp add: e)
  from remapPlaylists_step [OF this] show ?case
  proof (elim disjE conjE exE)
    assume n: "truthy_key (obj_get pm t) = None"
      and r: "remapPlaylists fs root pm m es = Inr (fs', m')"
    from Cons.IH [OF r] n e show ?thesis by auto
  next
    fix orig
    assume o: "truthy_key (obj_get pm t) = Some orig"
      and r: "remapPlaylists (fs((path_join root t) := None)) root pm (obj_set m orig b) es
                = Inr (fs', m')"
    note ih = Cons.IH [OF r]
    have a: "fst ` set m' =
        fst ` set m \<union>
        {orig. \<exists>t \<in> fst ` set (e # es). truthy_key (obj_get pm t) = Some orig \<and> orig \<noteq> ''__proto__''}"
      using ih o e by (auto simp: obj_set_keys split: if_splits)
    have b: "distinct (map fst m) \<longrightarrow> distinct (map fst m')"
      using ih by (simp add: obj_set_distinct)
    have c: "\<forall>p. fs' p =
        (if \<exists>t \<in> fst ` set (e # es). truthy_key (obj_get pm t) \<noteq> None \<and> p = path_join root t
         then None else fs p)"
      using ih o e by auto
    from a b c show ?thesis by (intro conjI)
  qed
qed

lemma remapPlaylists_lookup_other:
  "remapPlaylists fs root pm m es = Inr (fs', m') \<Longrightarrow>
     \<forall>t \<in> fst ` set es. truthy_key (obj_get pm t) \<noteq> Some k \<Longrightarrow>
     map_of m' k = map_of m k"
proof (induction es arbitrary: fs m)
  case Nil
  then show ?case by simp
next
  case (Cons e es)
  obtain t b where e: "e = (t, b)" by (cases e)
  from Cons.prems(2) e have
    t: "truthy_key (obj_get pm t) \<noteq> Some k" and
    rest: "\<forall>t \<in> fst ` set es. truthy_key (obj_get pm t) \<noteq> Some k"
    by auto
  from Cons.prems(1) have "remapPlaylists fs root pm m ((t, b) # es) = Inr (fs', m')"
    by (simp add: e)
  from remapPlaylists_step [OF this] show ?case
  proof (elim disjE conjE exE)
    assume "remapPlaylists fs root pm m es = Inr (fs', m')"
    from Cons.IH [OF this rest] show ?thesis .
  next
    fix orig
    assume o: "truthy_key (obj_get pm t) = Some orig"
      and r: "remapPlaylists (fs((path_join root t) := None)) root pm (obj_set m orig b) es
                = Inr (fs', m')"
    from o t have "orig \<noteq> k" by auto
    with Cons.IH [OF r rest] show ?thesis by (simp add: obj_set_map_of)
  qed
qed

lemma remapPlaylists_lookup:
  "remapPlaylists fs root pm m es = Inr (fs', m') \<Longrightarrow> distinct (map fst es) \<Longrightarrow>
     (t, b) \<in> set es \<Longrightarrow> truthy_key (obj_get pm t) = Some k \<Longrightarrow> k \<noteq> ''__proto__'' \<Longrightarrow>
     \<forall>t' \<in> fst ` set es. t' \<noteq> t \<longrightarrow> truthy_key (obj_get pm t') \<noteq> Some k \<Longrightarrow>
     map_of m' k = Some b"
proof (induction es arbitrary: fs m)
  case Nil
  then show ?case by simp
next
  case (Cons e es)
  obtain t0 b0 where e: "e = (t0, b0)" by (cases e)
  from Cons.prems(1) have run: "remapPlaylists fs root pm m ((t0, b0) # es) = Inr (fs', m')"
    by (simp add: e)
  show ?case
  proof (cases "t0 = t")
    case True
    with Cons.prems(2,3) e have b0: "b0 = b" and notin: "t \<notin> fst ` set es"
      by (auto simp: image_iff)
    have rest: "\<forall>t' \<in> fst ` set es. truthy_key (obj_get pm t') \<noteq> Some k"
    proof
      fix t' assume m: "t' \<in> fst ` set es"
      with notin have "t' \<noteq> t" by blast
      moreover from m have "t' \<in> fst ` set (e # es)" by auto
      ultimately show "truthy_key (obj_get pm t') \<noteq> Some k"
        using Cons.prems(6) by blast
    qed
    from remapPlaylists_step [OF run] Cons.prems(4) True b0 have
      r: "remapPlaylists (fs((path_join root t) := None)) root pm (obj_set m k b) es = Inr (fs', m')"
      by auto
    from remapPlaylists_lookup_other [OF r rest] Cons.prems(5) show ?thesis
      by (simp add: obj_set_map_of)
  next
    case False
    with Cons.prems(3) e have mem: "(t, b) \<in> set es" by auto
    from Cons.prems(2) have d: "distinct (map fst es)" by simp
    from Cons.prems(6) have rest: "\<forall>t' \<in> fst ` set es. t' \<noteq> t \<longrightarrow> truthy_key (obj_get pm t') \<noteq> Some k"
      by auto
    from remapPlaylists_step [OF run] show ?thesis
    proof (elim disjE conjE exE)
      assume "remapPlaylists fs root pm m es = Inr (fs', m')"
      from Cons.IH [OF this d mem Cons.prems(4,5) rest] show ?thesis .
    next
      fix orig
      assume "remapPlaylists (fs((path_join root t0) := None)) root pm (obj_set m orig b0) es
                = Inr (fs', m')"
      from Cons.IH [OF this d mem Cons.prems(4,5) rest] show ?thesis .
    qed
  qed
qed

lemma map_of_fold_update:
  "inj_on f (set xs) \<Longrightarrow> x \<in> set xs \<Longrightarrow>
     map_of (fold (\<lambda>d. AList.update (f d) (g d)) xs pm) (f x) = Some (g x)"
proof (induction xs arbitrary: pm rule: rev_induct)
  case Nil
  then show ?case by simp
next
  case (snoc y xs)
  show ?case
  proof (cases "x = y")
    case True
    then show ?thesis by (simp add: update_conv')
  next
    case False
    with snoc.prems have "x \<in> set xs" "f x \<noteq> f y" "inj_on f (set xs)"
      by (auto simp: inj_on_def)
    with snoc.IH [of pm] show ?thesis by (simp add: update_conv')
  qed
qed

lemma processAndUploadPlaylists_effect:
  assumes W: "stores_all walrus"
    and ds: "\<forall>d \<in> set ds. d \<noteq> [] \<and> d \<noteq> ''/''"
    and run: "processAndUploadPlaylists replace walrus fs ds root m = Inr (fs', m')"
  shows "fst ` set m' =
           fst ` set m \<union> (\<lambda>d. path_join d ''playlist.m3u8'') ` set (playlist_dirs fs root ds)"
    and "distinct (map fst m) \<Longrightarrow> distinct (map fst m')"
    and "fs' p =
           (if p \<in> (\<lambda>d. path_join (path_join root d) ''temp_playlist.m3u8'') `
                     set (playlist_dirs fs root ds)
            then None else fs p)"
    and "k \<notin> (\<lambda>d. path_join d ''playlist.m3u8'') ` set (playlist_dirs fs root ds) \<Longrightarrow>
           map_of m' k = map_of m k"
    and "\<exists>fs1 pbm.
           (playlist_dirs fs root ds \<noteq> [] \<longrightarrow>
              uploadToWalrus walrus fs1
                (map (\<lambda>d. path_join d ''temp_playlist.m3u8'') (playlist_dirs fs root ds)) root
              = Inr pbm) \<and>
           (\<forall>p. p \<notin> (\<lambda>d. path_join (path_join root d) ''temp_playlist.m3u8'') `
                       set (playlist_dirs fs root ds) \<longrightarrow> fs1 p = fs p) \<and>
           (\<forall>d \<in> set (playlist_dirs fs root ds).
              map_of m' (path_join d ''playlist.m3u8'') =
              map_of pbm (path_join d ''temp_playlist.m3u8''))"
proof -
  let ?pd = "playlist_dirs fs root ds"
  let ?tr = "\<lambda>d. path_join d ''temp_playlist.m3u8''"
  let ?or = "\<lambda>d. path_join d ''playlist.m3u8''"
  let ?T = "(\<lambda>d. path_join (path_join root d) ''temp_playlist.m3u8'') ` set ?pd"
  let ?up = "\<lambda>fs1 pbm. (?pd \<noteq> [] \<longrightarrow> uploadToWalrus walrus fs1 (map ?tr ?pd) root = Inr pbm) \<and>
           (\<forall>p. p \<notin> ?T \<longrightarrow> fs1 p = fs p) \<and>
           (\<forall>d \<in> set ?pd. map_of m' (?or d) = map_of pbm (?tr d))"
  from run obtain fs1 files pm where
    w: "writeTempPlaylists replace fs root m ds [] [] = Inr (fs1, files, pm)"
    by (auto simp: processAndUploadPlaylists_def split: sum.splits)
  from writeTempPlaylists_effect [OF w] have
    files: "files = map ?tr ?pd" and
    pm: "pm = fold (\<lambda>d. AList.update (?tr d) (?or d)) ?pd []" and
    fr: "\<And>p. p \<notin> ?T \<Longrightarrow> fs1 p = fs p"
    by simp_all
  have sub: "set ?pd \<subseteq> set ds" by (auto simp: playlist_dirs_def)
  have "fst ` set m' = fst ` set m \<union> ?or ` set ?pd \<and>
        (distinct (map fst m) \<longrightarrow> distinct (map fst m')) \<and>
        fs' p = (if p \<in> ?T then None else fs p) \<and>
        (k \<notin> ?or ` set ?pd \<longrightarrow> map_of m' k = map_of m k) \<and>
        (\<exists>fs1 pbm. ?up fs1 pbm)"
  proof (cases "?pd = []")
    case True
    with files run w have "fs' = fs1" "m' = m"
      by (auto simp: processAndUploadPlaylists_def)
    moreover from True fr have "?up fs1 []" by simp
    then have "\<exists>fs1 pbm. ?up fs1 pbm" by blast
    ultimately show ?thesis using True fr [of p] by simp
  next
    case False
    with files run w obtain pbm where
      up: "uploadToWalrus walrus fs1 files root = Inr pbm" and
      re: "remapPlaylists fs1 root pm m pbm = Inr (fs', m')"
      by (auto simp: processAndUploadPlaylists_def split: sum.splits)
    have "''__proto__'' \<notin> set files"
      unfolding files using slash_not_special(1) path_join_slash by fastforce
    from uploadToWalrus_keys [OF W up this] files have
      keys: "fst ` set pbm = ?tr ` set ?pd" and dist: "distinct (map fst pbm)"
      by simp_all
    have inj: "inj_on ?tr (set ?pd)"
    proof (rule inj_onI)
      fix x y assume "x \<in> set ?pd" "y \<in> set ?pd" and eq: "?tr x = ?tr y"
      with ds sub have "x \<noteq> []" "y \<noteq> []" by auto
      with eq show "x = y" by (simp add: path_join_inject_left)
    qed
    have inj_or: "?or x = ?or y \<Longrightarrow> x = y" if "x \<in> set ?pd" "y \<in> set ?pd" for x y
    proof -
      assume eq: "?or x = ?or y"
      from that ds sub have "x \<noteq> []" "y \<noteq> []" by auto
      with eq show "x = y" by (simp add: path_join_inject_left)
    qed
    have orne: "?or d \<noteq> []" for d by (simp add: path_join_def)
    have look: "truthy_key (obj_get pm (?tr d)) = Some (?or d)" if "d \<in> set ?pd" for d
    proof -
      have "map_of pm (?tr d) = Some (?or d)"
        unfolding pm using inj that by (rule map_of_fold_update)
      from obj_get_path [OF path_join_slash this] orne show ?thesis
        by (simp add: truthy_key_def)
    qed
    have notproto: "?or d \<noteq> ''__proto__''" for d
      using slash_not_special(1) [OF path_join_slash] .
    have A: "{orig. \<exists>t \<in> fst ` set pbm. truthy_key (obj_get pm t) = Some orig \<and> orig \<noteq> ''__proto__''}
               = ?or ` set ?pd"
      unfolding keys using look notproto by auto
    have B: "(\<exists>t \<in> fst ` set pbm. truthy_key (obj_get pm t) \<noteq> None \<and> p = path_join root t)
               \<longleftrightarrow> p \<in> ?T"
    proof -
      have "path_join root (?tr d) = path_join (path_join root d) ''temp_playlist.m3u8''"
        if "d \<in> set ?pd" for d
        using that ds sub by (intro path_join_assoc) auto
      then show ?thesis
        unfolding keys using look by (auto simp: image_iff)
    qed
    from remapPlaylists_effect [OF re] have
      1: "fst ` set m' = fst ` set m \<union>
            {orig. \<exists>t \<in> fst ` set pbm. truthy_key (obj_get pm t) = Some orig \<and> orig \<noteq> ''__proto__''}" and
      2: "distinct (map fst m) \<longrightarrow> distinct (map fst m')" and
      3: "fs' p = (if \<exists>t \<in> fst ` set pbm. truthy_key (obj_get pm t) \<noteq> None \<and> p = path_join root t
                   then None else fs1 p)"
      by blast+
    from 1 A have a: "fst ` set m' = fst ` set m \<union> ?or ` set ?pd" by simp
    from 3 B fr [of p] have c: "fs' p = (if p \<in> ?T then None else fs p)" by simp
    have d: "map_of m' k = map_of m k" if "k \<notin> ?or ` set ?pd"
    proof (rule remapPlaylists_lookup_other [OF re])
      show "\<forall>t \<in> fst ` set pbm. truthy_key (obj_get pm t) \<noteq> Some k"
        unfolding keys using look that by auto
    qed
    have e: "map_of m' (?or d) = map_of pbm (?tr d)" if dm: "d \<in> set ?pd" for d
    proof -
      from dm keys have "?tr d \<in> fst ` set pbm" by blast
      then obtain b where mem: "(?tr d, b) \<in> set pbm" by auto
      with dist have mb: "map_of pbm (?tr d) = Some b" by simp
      have others: "\<forall>t' \<in> fst ` set pbm. t' \<noteq> ?tr d \<longrightarrow> truthy_key (obj_get pm t') \<noteq> Some (?or d)"
      proof (intro ballI impI)
        fix t' assume "t' \<in> fst ` set pbm" and ne: "t' \<noteq> ?tr d"
        with keys obtain d' where d': "d' \<in> set ?pd" "t' = ?tr d'" by auto
        with ne have "d' \<noteq> d" by auto
        with inj_or [OF d'(1) dm] have "?or d' \<noteq> ?or d" by blast
        with look [OF d'(1)] d'(2) show "truthy_key (obj_get pm t') \<noteq> Some (?or d)" by simp
      qed
      from remapPlaylists_lookup [OF re dist mem look [OF dm] notproto others] mb
      show ?thesis by simp
    qed
    from up files fr e have "?up fs1 pbm" by simp
    then have "\<exists>fs1 pbm. ?up fs1 pbm" by blast
    with a 2 c d show ?thesis by simp
  qed
  then show "fst ` set m' = fst ` set m \<union> ?or ` set ?pd"
    and "distinct (map fst m) \<Longrightarrow> distinct (map fst m')"
    and "fs' p = (if p \<in> ?T then None else fs p)"
    and "k \<notin> ?or ` set ?pd \<Longrightarrow> map_of m' k = map_of m k"
    and "\<exists>fs1 pbm. ?up fs1 pbm"
    by simp_all
qed

lemma processAndUploadMasterPlaylist_effect:
  assumes run: "processAndUploadMasterPlaylist replace walrus fs root m = Inr (fs', mid)"
  shows "fs' = fs((path_join root ''temp_master.m3u8'') := None)"
    and "stores_all walrus \<Longrightarrow> mid \<noteq> None"
    and "\<exists>masterContent updatedContent mm.
           readFileSync fs (path_join root ''master.m3u8'') = Inr masterContent \<and>
           updateMasterContent replace masterContent m = Some updatedContent \<and>
           uploadToWalrus walrus (fs(path_join root ''temp_master.m3u8'' \<mapsto> File updatedContent))
             [path_join root ''temp_master.m3u8''] root = Inr mm \<and>
           mid = map_of mm (path_join root ''temp_master.m3u8'')"
proof -
  let ?tm = "path_join root ''temp_master.m3u8''"
  from run obtain c0 c fs1 mm where
    rd: "readFileSync fs (path_join root ''master.m3u8'') = Inr c0" and
    rw: "updateMasterContent replace c0 m = Some c" and
    w: "writeFileSync fs ?tm c = Inr fs1" and
    up: "uploadToWalrus walrus fs1 [?tm] root = Inr mm" and
    u: "unlinkSync fs1 ?tm = Inr fs'" and
    mid: "mid = map_of mm ?tm"
    by (auto simp: processAndUploadMasterPlaylist_def split: sum.splits option.splits)
  note fs1 = writeFileSync_frame [OF w]
  from fs1 unlinkSync_frame [OF u]
  show "fs' = fs(?tm := None)" by simp
  from rd rw up mid show "\<exists>masterContent updatedContent mm.
           readFileSync fs (path_join root ''master.m3u8'') = Inr masterContent \<and>
           updateMasterContent replace masterContent m = Some updatedContent \<and>
           uploadToWalrus walrus (fs(?tm \<mapsto> File updatedContent)) [?tm] root = Inr mm \<and>
           mid = map_of mm ?tm"
    unfolding fs1 by blast
  assume W: "stores_all walrus"
  have "''__proto__'' \<notin> set [?tm]"
    using slash_not_special(1) [OF path_join_slash, of root "''temp_master.m3u8''"] by simp
  from uploadToWalrus_keys [OF W up this] have "?tm \<in> fst ` set mm" by simp
  then show "mid \<noteq> None" unfolding mid by (simp add: map_of_eq_None_iff)
qed

lemma getStreamDirectories_names:
  "getStreamDirectories fs root = Inr ds \<Longrightarrow> \<forall>d \<in> set ds. startsWith d ''stream_''"
  by (auto simp: getStreamDirectories_def split: sum.splits)

lemma collectSegmentFiles_shape:
  "collectSegmentFiles fs ds root = Inr segs \<Longrightarrow>
     \<forall>s \<in> set segs. \<exists>d f. s = path_join d f \<and> d \<in> set ds \<and> endsWith f ''.ts''"
proof (induction ds arbitrary: segs)
  case Nil
  then show ?case by simp
next
  case (Cons d ds)
  then show ?case
    by (auto split: sum.splits) blast+
qed

lemma object_assign_Cons:
  "object_assign t ((k, v) # s) = object_assign (obj_set t k v) s"
  by (simp add: object_assign_def)

lemma object_assign_keys:
  "fst ` set (object_assign t s) = fst ` set t \<union> (fst ` set s - {''__proto__''})"
proof (induction s arbitrary: t)
  case Nil
  then show ?case by (simp add: object_assign_def)
next
  case (Cons e s)
  obtain k v where e: "e = (k, v)" by (cases e)
  have "fst ` set (object_assign (obj_set t k v) s) =
        fst ` set (obj_set t k v) \<union> (fst ` set s - {''__proto__''})"
    by (rule Cons.IH)
  then show ?case unfolding e object_assign_Cons by (auto simp: obj_set_keys split: if_splits)
qed

lemma object_assign_distinct:
  "distinct (map fst t) \<Longrightarrow> distinct (map fst (object_assign t s))"
proof (induction s arbitrary: t)
  case Nil
  then show ?case by (simp add: object_assign_def)
next
  case (Cons e s)
  obtain k v where e: "e = (k, v)" by (cases e)
  from Cons.prems have "distinct (map fst (obj_set t k v))" by (rule obj_set_distinct)
  from Cons.IH [OF this] show ?case unfolding e object_assign_Cons .
qed

lemma object_assign_lookup:
  "distinct (map fst s) \<Longrightarrow> ''__proto__'' \<notin> fst ` set s \<Longrightarrow>
     map_of (object_assign t s) x = (case map_of s x of Some v \<Rightarrow> Some v | None \<Rightarrow> map_of t x)"
proof (induction s arbitrary: t)
  case Nil
  then show ?case by (simp add: object_assign_def)
next
  case (Cons e s)
  obtain k v where e: "e = (k, v)" by (cases e)
  from Cons.prems e have d: "distinct (map fst s)" and k: "k \<notin> fst ` set s"
    and np: "''__proto__'' \<notin> fst ` set s" and kp: "k \<noteq> ''__proto__''"
    by auto
  from k have none: "map_of s k = None" by (simp add: map_of_eq_None_iff)
  have "map_of (object_assign (obj_set t k v) s) x =
          (case map_of s x of Some v \<Rightarrow> Some v | None \<Rightarrow> map_of (obj_set t k v) x)"
    by (rule Cons.IH [OF d np])
  with none kp show ?case unfolding e object_assign_Cons
    by (auto simp: obj_set_map_of split: option.splits)
qed

lemma segment_key_not_special:
  assumes "endsWith f ''.ts''"
  shows "\<not> is_temporary_path (path_join d f)" and "path_join d f \<noteq> ''master.m3u8''"
proof -
  from assms obtain g where f: "f = g @ ''.ts''"
    by (auto simp: endsWith_def suffix_def)
  have "last (path_join d f) = CHR ''s''"
    by (simp add: path_join_conv f)
  moreover have "is_temporary_path x \<Longrightarrow> last x = CHR ''8''" for x
    by (auto simp: is_temporary_path_def endsWith_def suffix_def)
  ultimately show "\<not> is_temporary_path (path_join d f)" by auto
  show "path_join d f \<noteq> ''master.m3u8''"
  proof
    assume "path_join d f = ''master.m3u8''"
    then have "last (path_join d f) = last ''master.m3u8''" by simp
    with \<open>last (path_join d f) = CHR ''s''\<close> show False by simp
  qed
qed

lemma playlist_key_not_special:
  "\<not> is_temporary_path (path_join d ''playlist.m3u8'')"
  "path_join d ''playlist.m3u8'' \<noteq> ''master.m3u8''"
proof -
  show "\<not> is_temporary_path (path_join d ''playlist.m3u8'')"
  proof
    assume "is_temporary_path (path_join d ''playlist.m3u8'')"
    then obtain x where
      "path_join d ''playlist.m3u8'' = x @ ''temp_playlist.m3u8'' \<or>
       path_join d ''playlist.m3u8'' = x @ ''temp_master.m3u8''"
      by (auto simp: is_temporary_path_def endsWith_def suffix_def)
    then have
      "rev (path_join d ''playlist.m3u8'') = rev (x @ ''temp_playlist.m3u8'') \<or>
       rev (path_join d ''playlist.m3u8'') = rev (x @ ''temp_master.m3u8'')"
      by auto
    then show False by (simp add: path_join_conv)
  qed
  show "path_join d ''playlist.m3u8'' \<noteq> ''master.m3u8''"
  proof
    assume "path_join d ''playlist.m3u8'' = ''master.m3u8''"
    then have "rev (path_join d ''playlist.m3u8'') = rev ''master.m3u8''" by simp
    then show False by (simp add: path_join_conv)
  qed
qed

lemma segment_neq_playlist:
  "endsWith f ''.ts'' \<Longrightarrow> path_join d f \<noteq> path_join d' ''playlist.m3u8''"
proof
  assume "endsWith f ''.ts''"
  then obtain g where f: "f = g @ ''.ts''"
    by (auto simp: endsWith_def suffix_def)
  assume "path_join d f = path_join d' ''playlist.m3u8''"
  then have "last (path_join d f) = last (path_join d' ''playlist.m3u8'')" by simp
  then show False by (simp add: path_join_conv f)
qed

lemma master_neq_temp_playlist:
  "path_join a ''master.m3u8'' \<noteq> path_join b ''temp_playlist.m3u8''"
  "path_join a ''temp_master.m3u8'' \<noteq> path_join b ''temp_playlist.m3u8''"
proof -
  show "path_join a ''master.m3u8'' \<noteq> path_join b ''temp_playlist.m3u8''"
  proof
    assume "path_join a ''master.m3u8'' = path_join b ''temp_playlist.m3u8''"
    then have "rev (path_join a ''master.m3u8'') = rev (path_join b ''temp_playlist.m3u8'')"
      by simp
    then show False by (simp add: path_join_conv)
  qed
  show "path_join a ''temp_master.m3u8'' \<noteq> path_join b ''temp_playlist.m3u8''"
  proof
    assume "path_join a ''temp_master.m3u8'' = path_join b ''temp_playlist.m3u8''"
    then have "rev (path_join a ''temp_master.m3u8'') = rev (path_join b ''temp_playlist.m3u8'')"
      by simp
    then show False by (simp add: path_join_conv)
  qed
qed

lemma full_run:
  assumes W: "stores_all walrus"
    and gs: "getStreamDirectories fs root = Inr ds"
    and cs: "collectSegmentFiles fs ds root = Inr segs"
    and run: "uploadHLSAssetsToWalrus replace walrus fs root = Inr (fs', mid, m)"
  shows "fst ` set m = set segs \<union> (\<lambda>d. path_join d ''playlist.m3u8'') ` set (playlist_dirs fs root ds)"
    and "distinct (map fst m)"
    and "mid \<noteq> None"
    and "fs' p = (if p \<in> temp_files fs root ds then None else fs p)"
    and "\<exists>sm. uploadToWalrus walrus fs segs root = Inr sm \<and>
           (\<forall>s \<in> set segs. map_of m s = map_of sm s)"
    and "\<exists>fs1 pbm.
           (playlist_dirs fs root ds \<noteq> [] \<longrightarrow>
              uploadToWalrus walrus fs1
                (map (\<lambda>d. path_join d ''temp_playlist.m3u8'') (playlist_dirs fs root ds)) root
              = Inr pbm) \<and>
           (\<forall>p. p \<notin> temp_files fs root ds \<longrightarrow> fs1 p = fs p) \<and>
           (\<forall>d \<in> set (playlist_dirs fs root ds).
              map_of m (path_join d ''playlist.m3u8'') =
              map_of pbm (path_join d ''temp_playlist.m3u8''))"
    and "\<exists>fs2 mm.
           uploadToWalrus walrus fs2 [path_join root ''temp_master.m3u8''] root = Inr mm \<and>
           (\<forall>p. p \<notin> temp_files fs root ds \<longrightarrow> fs2 p = fs p) \<and>
           mid = map_of mm (path_join root ''temp_master.m3u8'')"
proof -
  let ?pd = "playlist_dirs fs root ds"
  let ?or = "\<lambda>d. path_join d ''playlist.m3u8''"
  let ?tm = "path_join root ''temp_master.m3u8''"
  from run gs cs obtain sm fs1 where
    up: "uploadToWalrus walrus fs segs root = Inr sm" and
    pl: "processAndUploadPlaylists replace walrus fs ds root (object_assign [] sm) = Inr (fs1, m)" and
    ma: "processAndUploadMasterPlaylist replace walrus fs1 root m = Inr (fs', mid)"
    by (auto simp: uploadHLSAssetsToWalrus_def split: sum.splits)
  note shape = collectSegmentFiles_shape [OF cs]
  have slash: "CHR ''/'' \<in> set s" if "s \<in> set segs" for s
    using shape that path_join_slash by fastforce
  have np: "''__proto__'' \<notin> set segs"
    using slash slash_not_special(1) by blast
  from uploadToWalrus_keys [OF W up np] have sm: "fst ` set sm = set segs"
    and dsm: "distinct (map fst sm)" by simp_all
  have ne: "\<forall>d \<in> set ds. d \<noteq> [] \<and> d \<noteq> ''/''"
    using getStreamDirectories_names [OF gs] stream_dir_nonempty by blast
  from np sm have k0: "fst ` set (object_assign [] sm) = set segs"
    by (simp add: object_assign_keys)
  have d0: "distinct (map fst (object_assign [] sm))"
    by (rule object_assign_distinct) simp
  from processAndUploadPlaylists_effect(1) [OF W ne pl] k0
  show "fst ` set m = set segs \<union> ?or ` set ?pd"
    by simp
  from processAndUploadPlaylists_effect(2) [OF W ne pl d0]
  show "distinct (map fst m)" .
  from processAndUploadMasterPlaylist_effect(2) [OF ma W]
  show "mid \<noteq> None" .
  note fs1 = processAndUploadPlaylists_effect(3) [OF W ne pl]
  from fs1 [of p] processAndUploadMasterPlaylist_effect(1) [OF ma]
  show "fs' p = (if p \<in> temp_files fs root ds then None else fs p)"
    by (auto simp: temp_files_def)
  have "map_of m s = map_of sm s" if s: "s \<in> set segs" for s
  proof -
    from shape s obtain d f where df: "s = path_join d f" "endsWith f ''.ts''" by blast
    then have "s \<notin> ?or ` set ?pd" using segment_neq_playlist by auto
    from processAndUploadPlaylists_effect(4) [OF W ne pl this]
    have "map_of m s = map_of (object_assign [] sm) s" .
    also from np sm have "\<dots> = (case map_of sm s of Some v \<Rightarrow> Some v | None \<Rightarrow> map_of [] s)"
      by (intro object_assign_lookup [OF dsm]) simp
    also have "\<dots> = map_of sm s" by (simp split: option.splits)
    finally show ?thesis .
  qed
  with up show "\<exists>sm. uploadToWalrus walrus fs segs root = Inr sm \<and>
           (\<forall>s \<in> set segs. map_of m s = map_of sm s)"
    by blast
  from processAndUploadPlaylists_effect(5) [OF W ne pl]
  show "\<exists>fs1 pbm.
           (?pd \<noteq> [] \<longrightarrow>
              uploadToWalrus walrus fs1 (map (\<lambda>d. path_join d ''temp_playlist.m3u8'') ?pd) root
              = Inr pbm) \<and>
           (\<forall>p. p \<notin> temp_files fs root ds \<longrightarrow> fs1 p = fs p) \<and>
           (\<forall>d \<in> set ?pd. map_of m (?or d) = map_of pbm (path_join d ''temp_playlist.m3u8''))"
    by (auto simp: temp_files_def)
  from processAndUploadMasterPlaylist_effect(3) [OF ma] obtain c mm where
    upm: "uploadToWalrus walrus (fs1(?tm \<mapsto> File c)) [?tm] root = Inr mm" and
    mid: "mid = map_of mm ?tm"
    by blast
  have "(fs1(?tm \<mapsto> File c)) p = fs p" if "p \<notin> temp_files fs root ds" for p
    using that fs1 [of p] by (auto simp: temp_files_def)
  with upm mid show "\<exists>fs2 mm.
           uploadToWalrus walrus fs2 [?tm] root = Inr mm \<and>
           (\<forall>p. p \<notin> temp_files fs root ds \<longrightarrow> fs2 p = fs p) \<and>
           mid = map_of mm ?tm"
    by blast
qed

lemma stores_all_storing_walrus: "stores_all storing_walrus"
  by (auto simp: stores_all_def storing_walrus_def created_result_def resolve_blobId_def
        path_blob_id_def image_iff)

lemma output_run:
  "run_result (uploadHLSAssetsToWalrus js_replace storing_walrus output_fs ''/out'') =
     Some (Some ''blob_out_temp_master_m3u8'',
           [(''stream_0/data000.ts'', ''blobstream_0_data000_ts''),
            (''stream_0/playlist.m3u8'', ''blobstream_0_temp_playlist_m3u8'')])"
  by code_simp

lemma master_upload_collected:
  "collect_blobMappings []
     [created_result ''/out/temp_master.m3u8'' (path_blob_id ''/out/temp_master.m3u8'')] =
   [(''/out/temp_master.m3u8'', ''blob_out_temp_master_m3u8'')]"
  by code_simp

lemma output_dirs: "getStreamDirectories output_fs ''/out'' = Inr [''stream_0'']"
  by code_simp

lemma output_segments:
  "collectSegmentFiles output_fs [''stream_0''] ''/out'' = Inr [''stream_0/data000.ts'']"
  by code_simp

lemma output_playlist_dirs: "playlist_dirs output_fs ''/out'' [''stream_0''] = [''stream_0'']"
  by code_simp

lemma run_result_Some:
  "run_result r = Some (mid, m) \<Longrightarrow> \<exists>fs'. r = Inr (fs', mid, m)"
  by (auto simp: run_result_def split: sum.splits)

text \<open>
  Claim C1, at an input where it fails. A run over an output directory with one
  rendition succeeds; the mapping it returns has the segment and the sub-manifest under
  their original paths and nothing under \<open>master.m3u8\<close>: the master manifest's
  identifier is the other component of the result.
\<close>

theorem final_mapping_lacks_master:
  "run_result (uploadHLSAssetsToWalrus js_replace storing_walrus output_fs ''/out'') =
     Some (Some ''blob_out_temp_master_m3u8'',
           [(''stream_0/data000.ts'', ''blobstream_0_data000_ts''),
            (''stream_0/playlist.m3u8'', ''blobstream_0_temp_playlist_m3u8'')]) \<and>
   map_of [(''stream_0/data000.ts'', ''blobstream_0_data000_ts''),
           (''stream_0/playlist.m3u8'', ''blobstream_0_temp_playlist_m3u8'')] ''master.m3u8'' = None"
  using output_run by simp

text \<open>
  Claim C1, amended. After a run in which every upload succeeded and reported the paths
  it was given with an identifier, the returned mapping has exactly one entry for every
  uploaded segment file and for every uploaded sub-manifest, keyed by its original
  relative path: no key is a temporary path. A segment's entry carries the identifier
  the uploader's result has for the segment, and a sub-manifest's entry the identifier
  the uploader's result has for its temporary copy \<open>temp_playlist.m3u8\<close>. The master
  manifest has no entry in the mapping: \<open>masterBlobId\<close>, returned beside the mapping, is
  the identifier found under the temporary path \<open>temp_master.m3u8\<close> in the result of the
  upload of that one file. The three uploads run on the output tree as it was, but for
  the temporary files.
\<close>

theorem final_mapping_keys:
  assumes "stores_all walrus"
    and "getStreamDirectories fs assetsPath = Inr streamDirs"
    and "collectSegmentFiles fs streamDirs assetsPath = Inr allSegmentFiles"
    and "uploadHLSAssetsToWalrus replace walrus fs assetsPath = Inr (fs', masterBlobId, blobMappings)"
  shows "fst ` set blobMappings =
           set allSegmentFiles \<union>
           (\<lambda>d. path_join d ''playlist.m3u8'') ` set (playlist_dirs fs assetsPath streamDirs) \<and>
         distinct (map fst blobMappings) \<and>
         (\<forall>k \<in> fst ` set blobMappings. \<not> is_temporary_path k \<and> k \<noteq> ''master.m3u8'') \<and>
         (\<exists>segmentBlobMappings.
            uploadToWalrus walrus fs allSegmentFiles assetsPath = Inr segmentBlobMappings \<and>
            (\<forall>s \<in> set allSegmentFiles.
               map_of blobMappings s = map_of segmentBlobMappings s)) \<and>
         (\<exists>fs1 playlistBlobMappings.
            (playlist_dirs fs assetsPath streamDirs \<noteq> [] \<longrightarrow>
               uploadToWalrus walrus fs1
                 (map (\<lambda>d. path_join d ''temp_playlist.m3u8'')
                    (playlist_dirs fs assetsPath streamDirs)) assetsPath
               = Inr playlistBlobMappings) \<and>
            (\<forall>p. p \<notin> temp_files fs assetsPath streamDirs \<longrightarrow> fs1 p = fs p) \<and>
            (\<forall>d \<in> set (playlist_dirs fs assetsPath streamDirs).
               map_of blobMappings (path_join d ''playlist.m3u8'') =
               map_of playlistBlobMappings (path_join d ''temp_playlist.m3u8''))) \<and>
         (\<exists>fs2 masterPlaylistBlobMapping.
            uploadToWalrus walrus fs2 [path_join assetsPath ''temp_master.m3u8''] assetsPath
              = Inr masterPlaylistBlobMapping \<and>
            (\<forall>p. p \<notin> temp_files fs assetsPath streamDirs \<longrightarrow> fs2 p = fs p) \<and>
            masterBlobId =
              map_of masterPlaylistBlobMapping (path_join assetsPath ''temp_master.m3u8'')) \<and>
         masterBlobId \<noteq> None"
proof -
  note fr = full_run [OF assms]
  have "\<not> is_temporary_path k \<and> k \<noteq> ''master.m3u8''" if "k \<in> fst ` set blobMappings" for k
  proof -
    from that fr(1) consider "k \<in> set allSegmentFiles"
      | d where "k = path_join d ''playlist.m3u8''" by blast
    then show ?thesis
    proof cases
      case 1
      with collectSegmentFiles_shape [OF assms(3)] obtain d f where
        "k = path_join d f" "endsWith f ''.ts''" by blast
      then show ?thesis using segment_key_not_special by simp
    next
      case 2
      then show ?thesis using playlist_key_not_special by simp
    qed
  qed
  then have "\<forall>k \<in> fst ` set blobMappings. \<not> is_temporary_path k \<and> k \<noteq> ''master.m3u8''"
    by blast
  with fr(1) fr(2) fr(5) fr(6) fr(7) fr(3) show ?thesis by (intro conjI)
qed

theorem final_mapping_keys_witness:
  "stores_all storing_walrus \<and>
   getStreamDirectories output_fs ''/out'' = Inr [''stream_0''] \<and>
   collectSegmentFiles output_fs [''stream_0''] ''/out'' = Inr [''stream_0/data000.ts''] \<and>
   run_result (uploadHLSAssetsToWalrus js_replace storing_walrus output_fs ''/out'') =
     Some (Some ''blob_out_temp_master_m3u8'',
           [(''stream_0/data000.ts'', ''blobstream_0_data000_ts''),
            (''stream_0/playlist.m3u8'', ''blobstream_0_temp_playlist_m3u8'')]) \<and>
   fst ` set [(''stream_0/data000.ts'', ''blobstream_0_data000_ts''),
              (''stream_0/playlist.m3u8'', ''blobstream_0_temp_playlist_m3u8'')] =
     set [''stream_0/data000.ts''] \<union>
     (\<lambda>d. path_join d ''playlist.m3u8'') ` set (playlist_dirs output_fs ''/out'' [''stream_0'']) \<and>
   (\<exists>fs2. uploadToWalrus storing_walrus fs2 [''/out/temp_master.m3u8''] ''/out''
            = Inr [(''/out/temp_master.m3u8'', ''blob_out_temp_master_m3u8'')] \<and>
          Some ''blob_out_temp_master_m3u8'' =
            map_of [(''/out/temp_master.m3u8'', ''blob_out_temp_master_m3u8'')]
              ''/out/temp_master.m3u8'')"
proof -
  let ?M = "[(''stream_0/data000.ts'', ''blobstream_0_data000_ts''),
             (''stream_0/playlist.m3u8'', ''blobstream_0_temp_playlist_m3u8'')]"
  from run_result_Some [OF output_run] obtain fs' where
    run: "uploadHLSAssetsToWalrus js_replace storing_walrus output_fs ''/out'' =
            Inr (fs', Some ''blob_out_temp_master_m3u8'', ?M)" ..
  note inst = final_mapping_keys [OF stores_all_storing_walrus output_dirs output_segments run]
  from inst have keys: "fst ` set ?M =
     set [''stream_0/data000.ts''] \<union>
     (\<lambda>d. path_join d ''playlist.m3u8'') ` set (playlist_dirs output_fs ''/out'' [''stream_0''])"
    by (rule conjunct1)
  note master = inst [THEN conjunct2, THEN conjunct2, THEN conjunct2, THEN conjunct2,
                       THEN conjunct2, THEN conjunct1]
  then obtain fs2 mm where
    up: "uploadToWalrus storing_walrus fs2 [path_join ''/out'' ''temp_master.m3u8''] ''/out'' = Inr mm"
    and mid: "Some ''blob_out_temp_master_m3u8'' = map_of mm (path_join ''/out'' ''temp_master.m3u8'')"
    by (elim exE conjE)
  have tm: "path_join ''/out'' ''temp_master.m3u8'' = ''/out/temp_master.m3u8''"
    by (simp add: path_join_def)
  have ev: "uploadToWalrus storing_walrus fs2 [''/out/temp_master.m3u8''] ''/out''
              = Inr [(''/out/temp_master.m3u8'', ''blob_out_temp_master_m3u8'')]"
    by (simp add: uploadToWalrus_def storing_walrus_def master_upload_collected
          del: collect_blobMappings.simps)
  from up mid ev have
    "\<exists>fs2. uploadToWalrus storing_walrus fs2 [''/out/temp_master.m3u8''] ''/out''
            = Inr [(''/out/temp_master.m3u8'', ''blob_out_temp_master_m3u8'')] \<and>
          Some ''blob_out_temp_master_m3u8'' =
            map_of [(''/out/temp_master.m3u8'', ''blob_out_temp_master_m3u8'')]
              ''/out/temp_master.m3u8''"
    unfolding tm by (intro exI [of _ fs2]) simp
  with stores_all_storing_walrus output_dirs output_segments output_run keys
  show ?thesis by (intro conjI)
qed

text \<open>
  Claim C6. After a run in which every upload succeeded and reported the paths it was
  given with an identifier, no temporary file is left: neither the
  \<open>temp_playlist.m3u8\<close> of a stream directory that has a sub-manifest nor
  \<open>temp_master.m3u8\<close>; and every other path holds what it held before the run.
\<close>

theorem temporary_files_deleted:
  assumes "stores_all walrus"
    and "getStreamDirectories fs assetsPath = Inr streamDirs"
    and "uploadHLSAssetsToWalrus replace walrus fs assetsPath = Inr (fs', masterBlobId, blobMappings)"
  shows "fs' p = (if p \<in> temp_files fs assetsPath streamDirs then None else fs p)"
proof -
  from assms(2,3) obtain segs where "collectSegmentFiles fs streamDirs assetsPath = Inr segs"
    by (auto simp: uploadHLSAssetsToWalrus_def split: sum.splits)
  from full_run(4) [OF assms(1,2) this assms(3)] show ?thesis .
qed

theorem temporary_files_deleted_witness:
  "stores_all storing_walrus \<and>
   getStreamDirectories output_fs ''/out'' = Inr [''stream_0''] \<and>
   temp_files output_fs ''/out'' [''stream_0''] =
     {''/out/temp_master.m3u8'', ''/out/stream_0/temp_playlist.m3u8''} \<and>
   run_leaves (uploadHLSAssetsToWalrus js_replace storing_walrus output_fs ''/out'')
     [''/out/temp_master.m3u8'', ''/out/stream_0/temp_playlist.m3u8'',
      ''/out/stream_0/playlist.m3u8'', ''/out/stream_0/data000.ts''] =
     Some [None, None,
           Some (File (''#EXTM3U'' @ [CHR 0x0A] @ ''data000.ts'' @ [CHR 0x0A])),
           Some (File ''segment bytes'')]"
proof -
  from run_result_Some [OF output_run] obtain fs' where
    run: "uploadHLSAssetsToWalrus js_replace storing_walrus output_fs ''/out'' =
            Inr (fs', Some ''blob_out_temp_master_m3u8'',
                 [(''stream_0/data000.ts'', ''blobstream_0_data000_ts''),
                  (''stream_0/playlist.m3u8'', ''blobstream_0_temp_playlist_m3u8'')])" ..
  have t: "temp_files output_fs ''/out'' [''stream_0''] =
     {''/out/temp_master.m3u8'', ''/out/stream_0/temp_playlist.m3u8''}"
    by (simp add: temp_files_def output_playlist_dirs path_join_def)
  have d: "fs' p = (if p \<in> {''/out/temp_master.m3u8'', ''/out/stream_0/temp_playlist.m3u8''}
                    then None else output_fs p)" for p
    using temporary_files_deleted [OF stores_all_storing_walrus output_dirs run, of p]
    unfolding t .
  have "map fs' [''/out/temp_master.m3u8'', ''/out/stream_0/temp_playlist.m3u8'',
      ''/out/stream_0/playlist.m3u8'', ''/out/stream_0/data000.ts''] =
     [None, None,
           Some (File (''#EXTM3U'' @ [CHR 0x0A] @ ''data000.ts'' @ [CHR 0x0A])),
           Some (File ''segment bytes'')]"
    by (simp add: d output_fs_def)
  then have "run_leaves (uploadHLSAssetsToWalrus js_replace storing_walrus output_fs ''/out'')
     [''/out/temp_master.m3u8'', ''/out/stream_0/temp_playlist.m3u8'',
      ''/out/stream_0/playlist.m3u8'', ''/out/stream_0/data000.ts''] =
     Some [None, None,
           Some (File (''#EXTM3U'' @ [CHR 0x0A] @ ''data000.ts'' @ [CHR 0x0A])),
           Some (File ''segment bytes'')]"
    by (simp add: run_leaves_def run del: list.map)
  with stores_all_storing_walrus output_dirs t show ?thesis by (intro conjI)
qed

section \<open>The master-manifest pass of a run\<close>

lemma dotted_run:
  "run_result (uploadHLSAssetsToWalrus js_replace storing_walrus dotted_fs ''/out'') =
     Some (Some ''blob_out_temp_master_m3u8'', dotted_mapping)"
  by code_simp

lemma dotted_master_read:
  "readFileSync dotted_fs ''/out/master.m3u8'' =
     Inr (''#EXTM3U'' @ [CHR 0x0A] @ ''stream_0/playlist.m3u8'' @ [CHR 0x0A])"
  by (simp add: readFileSync_def dotted_fs_def)

lemma dotted_master_rewrite:
  "updateMasterContent js_replace
     (''#EXTM3U'' @ [CHR 0x0A] @ ''stream_0/playlist.m3u8'' @ [CHR 0x0A]) dotted_mapping =
   Some (''#EXTM3U'' @ [CHR 0x0A] @
         ''https://aggregator.walrus-testnet.walrus.space/v1/blobs/blobstream___temp_playlist_m3u8'' @
         [CHR 0x0A])"
  by code_simp

lemma dotted_master_write:
  "writeFileSync dotted_fs ''/out/temp_master.m3u8'' c =
     Inr (dotted_fs(''/out/temp_master.m3u8'' \<mapsto> File c))"
proof -
  have "path_dirname ''/out/temp_master.m3u8'' = ''/out''" by code_simp
  then show ?thesis by (simp add: writeFileSync_def dotted_fs_def)
qed

lemma dotted_master_unlink:
  "unlinkSync (dotted_fs(''/out/temp_master.m3u8'' \<mapsto> File c)) ''/out/temp_master.m3u8'' =
     Inr dotted_fs"
proof -
  have "dotted_fs ''/out/temp_master.m3u8'' = None" by (simp add: dotted_fs_def)
  then have "dotted_fs(''/out/temp_master.m3u8'' := None) = dotted_fs" by (rule fun_upd_idem)
  then show ?thesis by (simp add: unlinkSync_def)
qed

text \<open>
  Claim C4, at an input where the code departs from it. The output directory holds the
  rendition \<open>stream_0\<close> and, listed before it, a directory \<open>stream_.\<close> with a
  sub-manifest of its own. A run over it succeeds, and in the mapping it returns
  \<open>stream_0/playlist.m3u8\<close> has its entry. The master manifest has the line
  \<open>stream_0/playlist.m3u8\<close>. Whatever the storage client, the text that
  \<open>processAndUploadMasterPlaylist\<close> writes to \<open>temp_master.m3u8\<close> and hands to the
  upload has in the place of that line the retrieval URL of the sub-manifest of
  \<open>stream_.\<close>, not the one of \<open>stream_0\<close>: the directory name goes into the pattern
  unescaped, and the dot of \<open>stream_.\<close> matches the \<open>0\<close>.
\<close>

theorem master_line_takes_other_url:
  "run_result (uploadHLSAssetsToWalrus js_replace storing_walrus dotted_fs ''/out'') =
     Some (Some ''blob_out_temp_master_m3u8'', dotted_mapping) \<and>
   readFileSync dotted_fs ''/out/master.m3u8'' =
     Inr (''#EXTM3U'' @ [CHR 0x0A] @ ''stream_0/playlist.m3u8'' @ [CHR 0x0A]) \<and>
   map_of dotted_mapping ''stream_0/playlist.m3u8'' = Some ''blobstream_0_temp_playlist_m3u8'' \<and>
   processAndUploadMasterPlaylist js_replace walrus dotted_fs ''/out'' dotted_mapping =
     (case walrus ''/out'' [''/out/temp_master.m3u8'']
             (dotted_fs(''/out/temp_master.m3u8'' \<mapsto>
                File (''#EXTM3U'' @ [CHR 0x0A] @
                      ''https://aggregator.walrus-testnet.walrus.space/v1/blobs/blobstream___temp_playlist_m3u8'' @
                      [CHR 0x0A]))) of
        None \<Rightarrow> Inl UploadFailed
      | Some results \<Rightarrow>
          Inr (dotted_fs, map_of (collect_blobMappings [] results) ''/out/temp_master.m3u8''))"
proof -
  have tm: "path_join ''/out'' ''temp_master.m3u8'' = ''/out/temp_master.m3u8''"
    and ma: "path_join ''/out'' ''master.m3u8'' = ''/out/master.m3u8''"
    by (simp_all add: path_join_def)
  have m: "map_of dotted_mapping ''stream_0/playlist.m3u8'' = Some ''blobstream_0_temp_playlist_m3u8''"
    by (simp add: dotted_mapping_def)
  have p: "processAndUploadMasterPlaylist js_replace walrus dotted_fs ''/out'' dotted_mapping =
     (case walrus ''/out'' [''/out/temp_master.m3u8'']
             (dotted_fs(''/out/temp_master.m3u8'' \<mapsto>
                File (''#EXTM3U'' @ [CHR 0x0A] @
                      ''https://aggregator.walrus-testnet.walrus.space/v1/blobs/blobstream___temp_playlist_m3u8'' @
                      [CHR 0x0A]))) of
        None \<Rightarrow> Inl UploadFailed
      | Some results \<Rightarrow>
          Inr (dotted_fs, map_of (collect_blobMappings [] results) ''/out/temp_master.m3u8''))"
    unfolding processAndUploadMasterPlaylist_def tm ma dotted_master_read sum.case
      dotted_master_rewrite option.case dotted_master_write uploadToWalrus_def
    by (simp add: dotted_master_unlink split: option.splits)
  from dotted_run dotted_master_read m p show ?thesis by (intro conjI)
qed

section \<open>Properties of the record publisher\<close>

lemma module_calls_prefix: "module_calls store store' \<Longrightarrow> prefix store store'"
  by (induction rule: module_calls.induct)
     (auto simp: save_video_def share_object_def object_new_def Let_def)

text \<open>
  Claim C7. Every call of \<open>save_video\<close> with a title, a description and a reference
  string adds exactly one record to the store, carrying that title, that description,
  the reference string as it was given (any string: it is not examined) and the epoch
  timestamp of the transaction context in milliseconds; the record is shared from the
  moment it is created; and whatever calls of the module follow, the store keeps the
  record as it is.
\<close>

theorem save_video_record:
  "save_video store ctx t d u =
     (store @ [(\<lparr>id = UID (tx_hash ctx) (ids_created ctx), title = t, description = d,
                  master_manifest_url = Url u, created_at = epoch_timestamp_ms ctx\<rparr>, Shared)],
      ctx\<lparr>ids_created := ids_created ctx + 1\<rparr>) \<and>
   (\<forall>store'. module_calls (fst (save_video store ctx t d u)) store' \<longrightarrow>
      prefix (fst (save_video store ctx t d u)) store')"
  using module_calls_prefix
  by (simp add: save_video_def share_object_def object_new_def url_new_unsafe_def)

theorem save_video_record_witness:
  "module_calls (fst (save_video [] demo_ctx ''Title'' ''About'' ''not a url''))
     (fst (save_video (fst (save_video [] demo_ctx ''Title'' ''About'' ''not a url''))
             (demo_ctx\<lparr>tx_hash := ''0xdef''\<rparr>) ''Second'' ''Other'' ''https://x/v1/blobs/y'')) \<and>
   fst (save_video [] demo_ctx ''Title'' ''About'' ''not a url'') =
     [(\<lparr>id = UID ''0xabc'' 0, title = ''Title'', description = ''About'',
        master_manifest_url = Url ''not a url'', created_at = 1700000000000\<rparr>, Shared)] \<and>
   prefix (fst (save_video [] demo_ctx ''Title'' ''About'' ''not a url''))
     (fst (save_video (fst (save_video [] demo_ctx ''Title'' ''About'' ''not a url''))
             (demo_ctx\<lparr>tx_hash := ''0xdef''\<rparr>) ''Second'' ''Other'' ''https://x/v1/blobs/y''))"
proof -
  let ?s1 = "fst (save_video [] demo_ctx ''Title'' ''About'' ''not a url'')"
  let ?s2 = "fst (save_video ?s1 (demo_ctx\<lparr>tx_hash := ''0xdef''\<rparr>) ''Second'' ''Other'' ''https://x/v1/blobs/y'')"
  have m: "module_calls ?s1 ?s2"
    by (rule module_calls.call) (rule module_calls.no_call)
  note T = save_video_record [of "[]" demo_ctx "''Title''" "''About''" "''not a url''"]
  have e: "?s1 = [(\<lparr>id = UID ''0xabc'' 0, title = ''Title'', description = ''About'',
        master_manifest_url = Url ''not a url'', created_at = 1700000000000\<rparr>, Shared)]"
    using T [THEN conjunct1] by (simp add: demo_ctx_def)
  have p: "prefix ?s1 ?s2"
    using T [THEN conjunct2, rule_format, OF m] .
  from m e p show ?thesis by (intro conjI)
qed

end
